theory Spec2Isabelle
  imports Complex_Main "HOL-Library.AList"
begin

section \<open>Time-series lessons: synthetic series, ADF check, differencing\<close>

text \<open>
  The repository holds two notebooks. The first (Introduction to Time Series Analysis)
  builds a series \<open>trend + seasonality + noise\<close> and runs the Augmented Dickey-Fuller
  test on it. The second (Lesson 3: Stationarity and Differencing) builds a random walk with
  \<open>np.cumsum\<close>, tests it, takes \<open>df['Value'].diff()\<close>, drops the missing values with
  \<open>dropna()\<close> and tests again.

  The notebooks are straight-line scripts over numpy, pandas and statsmodels. The model
  below keeps the scripts cell by cell and the order of their statements. The numeric
  library calls that are plain arithmetic (\<open>+\<close>, \<open>-\<close>, \<open>*\<close>, \<open>/\<close>, \<open>np.cumsum\<close>,
  \<open>Series.diff\<close>, \<open>Series.dropna\<close>, \<open>np.linspace\<close>, \<open>pd.date_range\<close>) are modelled on
  IEEE binary64 values. The calls that are not arithmetic (the Mersenne Twister behind
  \<open>np.random\<close>, \<open>np.sin\<close>, \<open>adfuller\<close>) are parameters of the model. Plotting has no
  effect on the data and is left out.
\<close>

subsection \<open>IEEE binary64 values\<close>

text \<open>
  A numpy \<open>float64\<close> is a finite number, an infinity or NaN. A finite value is kept by its
  exact real value; the two zeros are identified (the arithmetic of the scripts does not
  read the sign of a zero). \<open>fl\<close> rounds an exact real to the nearest binary64 value, ties to even, with
  gradual underflow (spacing \<open>2 ^ -1074\<close> at the bottom) and overflow to an infinity from
  \<open>2 ^ 1024\<close> on.
\<close>

datatype double = Fin real | PInf | NInf | NaN

text \<open>Round to the nearest integer, ties to the even one.\<close>

definition rne :: "real \<Rightarrow> int" where
  "rne x = (let f = \<lfloor>x\<rfloor>; d = x - of_int f in
     if d < 1/2 then f else if 1/2 < d then f + 1 else if even f then f else f + 1)"

text \<open>
  \<open>ulp_exp y k\<close>, for \<open>y\<close> the magnitude in units of \<open>2 ^ -1074\<close>: the least \<open>k' \<ge> k\<close>
  with \<open>y < 2 ^ (53 + k')\<close>, capped at the top binade \<open>2045\<close>. The spacing of the binary64
  values around \<open>y\<close> is then \<open>2 ^ k'\<close> units.
\<close>

function ulp_exp :: "real \<Rightarrow> nat \<Rightarrow> nat" where
  "ulp_exp y k = (if k < 2045 \<and> 2 ^ (53 + k) \<le> y then ulp_exp y (k + 1) else k)"
  by pat_completeness auto
termination
  by (relation "measure (\<lambda>(y, k). 2045 - k)") auto

declare ulp_exp.simps [simp del]

definition fl :: "real \<Rightarrow> double" where
  "fl x = (if x = 0 then Fin 0 else
     let y = \<bar>x\<bar> * 2 ^ 1074;
         k = ulp_exp y 0;
         v = of_int (rne (y / 2 ^ k)) * 2 ^ k / 2 ^ 1074
     in if 2 ^ 1024 \<le> v then (if 0 < x then PInf else NInf)
        else Fin (if 0 < x then v else - v))"

text \<open>A real number is a binary64 value when rounding leaves it alone.\<close>

definition is_double :: "real \<Rightarrow> bool" where
  "is_double x = (fl x = Fin x)"

fun isnan :: "double \<Rightarrow> bool" where
  "isnan NaN = True"
| "isnan _ = False"

fun isfinite :: "double \<Rightarrow> bool" where
  "isfinite (Fin _) = True"
| "isfinite _ = False"

fun fneg :: "double \<Rightarrow> double" where
  "fneg (Fin x) = Fin (- x)"
| "fneg PInf = NInf"
| "fneg NInf = PInf"
| "fneg NaN = NaN"

text \<open>Addition: the exact sum, rounded; \<open>inf + (-inf)\<close> is NaN and NaN propagates.\<close>

fun fadd :: "double \<Rightarrow> double \<Rightarrow> double" where
  "fadd NaN _ = NaN"
| "fadd _ NaN = NaN"
| "fadd (Fin x) (Fin y) = fl (x + y)"
| "fadd PInf NInf = NaN"
| "fadd NInf PInf = NaN"
| "fadd PInf _ = PInf"
| "fadd NInf _ = NInf"
| "fadd (Fin _) PInf = PInf"
| "fadd (Fin _) NInf = NInf"

definition fsub :: "double \<Rightarrow> double \<Rightarrow> double" where
  "fsub a b = fadd a (fneg b)"

text \<open>The sign of a non-NaN value, as \<open>-1\<close>, \<open>0\<close> or \<open>1\<close>.\<close>

fun fsgn :: "double \<Rightarrow> int" where
  "fsgn (Fin x) = (if x < 0 then - 1 else if x = 0 then 0 else 1)"
| "fsgn PInf = 1"
| "fsgn NInf = - 1"
| "fsgn NaN = 0"

text \<open>Multiplication: the exact product, rounded; \<open>0 * inf\<close> is NaN.\<close>

fun fmul :: "double \<Rightarrow> double \<Rightarrow> double" where
  "fmul NaN _ = NaN"
| "fmul _ NaN = NaN"
| "fmul (Fin x) (Fin y) = fl (x * y)"
| "fmul a b = (if fsgn a * fsgn b = 0 then NaN else if 0 < fsgn a * fsgn b then PInf else NInf)"

text \<open>
  Division, rounded. With the zeros identified, a division of a nonzero number by zero
  takes its sign from the dividend; the scripts divide only by positive counts.
\<close>

fun fdiv :: "double \<Rightarrow> double \<Rightarrow> double" where
  "fdiv NaN _ = NaN"
| "fdiv _ NaN = NaN"
| "fdiv (Fin x) (Fin y) =
     (if y = 0 then (if x = 0 then NaN else if 0 < x then PInf else NInf) else fl (x / y))"
| "fdiv (Fin x) _ = Fin 0"
| "fdiv a (Fin y) = (if 0 \<le> fsgn a * fsgn (Fin y) then a else fneg a)"
| "fdiv _ _ = NaN"

text \<open>Python's \<open><\<close> on floats: every comparison with NaN is false.\<close>

fun flt :: "double \<Rightarrow> double \<Rightarrow> bool" where
  "flt NaN _ = False"
| "flt _ NaN = False"
| "flt (Fin x) (Fin y) = (x < y)"
| "flt NInf NInf = False"
| "flt NInf _ = True"
| "flt _ NInf = False"
| "flt PInf _ = False"
| "flt (Fin _) PInf = True"

text \<open>A Python integer converted to \<open>float64\<close>.\<close>

definition float_of_int :: "int \<Rightarrow> double" where
  "float_of_int i = fl (of_int i)"

subsection \<open>Values of a Series: cumulative sum, differences, dropping NaN\<close>

text \<open>
  \<open>np.cumsum\<close> accumulates from left to right: \<open>out[0] = x[0]\<close>,
  \<open>out[i] = out[i-1] + x[i]\<close>.
\<close>

fun cumsum_from :: "double \<Rightarrow> double list \<Rightarrow> double list" where
  "cumsum_from acc [] = []"
| "cumsum_from acc (x # xs) = fadd acc x # cumsum_from (fadd acc x) xs"

definition np_cumsum :: "double list \<Rightarrow> double list" where
  "np_cumsum xs = (case xs of [] \<Rightarrow> [] | x # r \<Rightarrow> x # cumsum_from x r)"

text \<open>
  \<open>Series.diff()\<close> (one period): \<open>out[0]\<close> is NaN and \<open>out[i] = x[i] - x[i-1]\<close>; the
  result has the length of the input.
\<close>

fun diff_from :: "double \<Rightarrow> double list \<Rightarrow> double list" where
  "diff_from prev [] = []"
| "diff_from prev (x # xs) = fsub x prev # diff_from x xs"

definition values_diff :: "double list \<Rightarrow> double list" where
  "values_diff xs = (case xs of [] \<Rightarrow> [] | x # r \<Rightarrow> NaN # diff_from x r)"

text \<open>\<open>Series.dropna()\<close> keeps the entries that are not NaN, in order.\<close>

definition values_dropna :: "double list \<Rightarrow> double list" where
  "values_dropna xs = filter (\<lambda>v. \<not> isnan v) xs"

text \<open>
  The differencer of Lesson 3, on the values: \<open>df['Value'].diff()\<close> stored as
  \<open>df['Value_diff']\<close>, then \<open>df['Value_diff'].dropna()\<close>.
\<close>

definition differencer :: "double list \<Rightarrow> double list" where
  "differencer xs = values_dropna (values_diff xs)"

text \<open>
  \<open>exact_sums acc ss\<close>: the steps \<open>ss\<close> are binary64 values, and so is every running sum
  of \<open>acc\<close> and the steps: \<open>np.cumsum\<close> started at \<open>acc\<close> rounds nothing away.
\<close>

fun exact_sums :: "real \<Rightarrow> real list \<Rightarrow> bool" where
  "exact_sums acc [] = True"
| "exact_sums acc (s # ss) = (is_double s \<and> is_double (acc + s) \<and> exact_sums (acc + s) ss)"

subsection \<open>Errors and the library parameters\<close>

text \<open>
  Every exception the scripts can meet is a value; none of the scripts has a \<open>try\<close>, so
  an error ends the run at the call that raises it.
\<close>

datatype py_error =
    SeedOutOfRange        \<comment> \<open>\<open>np.random.seed\<close>: "Seed must be between 0 and 2**32 - 1"\<close>
  | OutOfBoundsDatetime   \<comment> \<open>pandas: a timestamp beyond the timestamp range\<close>
  | NegativePeriods       \<comment> \<open>\<open>pd.date_range\<close> with a negative \<open>periods\<close>\<close>
  | NegativeSamples       \<comment> \<open>\<open>np.linspace\<close>: "Number of samples must be non-negative"\<close>
  | NegativeScale         \<comment> \<open>\<open>np.random.normal\<close>: "scale < 0"\<close>
  | NegativeDimensions    \<comment> \<open>\<open>np.random.normal\<close>: "negative dimensions are not allowed"\<close>
  | ShapeMismatch         \<comment> \<open>\<open>+\<close> on arrays whose shapes do not broadcast\<close>
  | LengthMismatch        \<comment> \<open>\<open>pd.DataFrame\<close>: "All arrays must be of the same length"\<close>
  | KeyError string       \<comment> \<open>\<open>df[name]\<close> for a column that is not there\<close>
  | InsufficientSample    \<comment> \<open>the hypothesis test: too few observations\<close>
  | TestError string      \<comment> \<open>any other exception of the hypothesis test\<close>

text \<open>
  The parts of the libraries that are not arithmetic. \<open>'g\<close> is the state of the global
  generator behind \<open>np.random\<close>: \<open>init_by_seed\<close> builds the Mersenne Twister state from
  a seed in range, \<open>legacy_gauss\<close> draws one standard normal number and advances the
  state, \<open>np_sin\<close> is the sine of the platform. \<open>Timestamp_max\<close> is the value of
  \<open>pd.Timestamp.max\<close>, the largest timestamp pandas represents, in nanoseconds since the
  epoch: \<open>2 ^ 63 - 1\<close> at nanosecond resolution; \<open>pd.Timestamp.min\<close> is its negative.
\<close>

record 'g numlib =
  init_by_seed :: "nat \<Rightarrow> 'g"
  legacy_gauss :: "'g \<Rightarrow> double \<times> 'g"
  np_sin :: "double \<Rightarrow> double"
  Timestamp_max :: int

text \<open>
  \<open>adfuller\<close> returns a tuple; the scripts read \<open>result[0]\<close> (the statistic) and
  \<open>result[1]\<close> (the p-value) only. The test is a parameter of every cell that calls it.
\<close>

record adf_result =
  statistic :: double
  pvalue :: double

type_synonym adf_test = "double list \<Rightarrow> py_error + adf_result"

subsection \<open>numpy calls\<close>

text \<open>\<open>np.pi\<close>: the binary64 value nearest to pi.\<close>

definition np_pi :: double where
  "np_pi = Fin (884279719003555 / 281474976710656)"

text \<open>
  \<open>np.linspace(start, stop, num)\<close> with the default \<open>endpoint=True\<close>, as numpy computes
  it: \<open>arange(0, num) * step + start\<close> with \<open>step = (stop - start) / (num - 1)\<close>, the last
  element overwritten with \<open>stop\<close> when \<open>num > 1\<close>; a zero step takes the other order of
  the operations; a negative \<open>num\<close> raises.
\<close>

definition np_linspace :: "double \<Rightarrow> double \<Rightarrow> int \<Rightarrow> py_error + double list" where
  "np_linspace start stop num =
     (if num < 0 then Inl NegativeSamples
      else
        let divisor = num - 1;
            delta = fsub stop start;
            y0 = map (\<lambda>i. float_of_int (int i)) [0..<nat num];
            y1 = (if 0 < divisor then
                    (let step = fdiv delta (float_of_int divisor) in
                     if step = Fin 0
                     then map (\<lambda>v. fmul (fdiv v (float_of_int divisor)) delta) y0
                     else map (\<lambda>v. fmul v step) y0)
                  else map (\<lambda>v. fmul v delta) y0);
            y2 = map (\<lambda>v. fadd v start) y1
        in Inr (if 1 < num then y2[nat (num - 1) := stop] else y2))"

text \<open>
  \<open>np.random.seed(seed)\<close> for an integer seed: the seed must lie in \<open>0 .. 2 ^ 32 - 1\<close>; the
  state of the global generator is replaced.
\<close>

definition np_random_seed :: "'g numlib \<Rightarrow> int \<Rightarrow> py_error + 'g" where
  "np_random_seed lib seed =
     (if seed < 0 \<or> 2 ^ 32 \<le> seed then Inl SeedOutOfRange
      else Inr (init_by_seed lib (nat seed)))"

text \<open>
  The sign bit, as numpy's check of the scale reads it. (The negative zero, whose sign
  bit is set too, is not a value of the model; the theorems take the scale positive.)
\<close>

fun signbit :: "double \<Rightarrow> bool" where
  "signbit (Fin x) = (x < 0)"
| "signbit NInf = True"
| "signbit _ = False"

text \<open>
  \<open>np.random.normal(loc, scale, n)\<close> on the global generator: the scale is checked first
  (a scale with the sign bit set raises, NaN does not), a negative \<open>n\<close> raises, and then
  \<open>n\<close> numbers are drawn one after the other, each \<open>loc + scale * gauss\<close>.
\<close>

fun draws :: "('g \<Rightarrow> double \<times> 'g) \<Rightarrow> nat \<Rightarrow> 'g \<Rightarrow> double list \<times> 'g" where
  "draws f 0 g = ([], g)"
| "draws f (Suc n) g =
     (case f g of (z, g1) \<Rightarrow> (case draws f n g1 of (zs, g2) \<Rightarrow> (z # zs, g2)))"

definition np_random_normal ::
  "'g numlib \<Rightarrow> double \<Rightarrow> double \<Rightarrow> int \<Rightarrow> 'g \<Rightarrow> py_error + (double list \<times> 'g)" where
  "np_random_normal lib loc scale n g =
     (if signbit scale then Inl NegativeScale
      else if n < 0 then Inl NegativeDimensions
      else case draws (legacy_gauss lib) (nat n) g of
             (zs, g1) \<Rightarrow> Inr (map (\<lambda>z. fadd loc (fmul scale z)) zs, g1))"

text \<open>\<open>a + b\<close> on one-dimensional arrays: elementwise, a one-element array broadcasts.\<close>

definition np_add :: "double list \<Rightarrow> double list \<Rightarrow> py_error + double list" where
  "np_add a b =
     (if length a = length b then Inr (map2 fadd a b)
      else if length a = 1 then Inr (map (\<lambda>y. fadd (hd a) y) b)
      else if length b = 1 then Inr (map (\<lambda>x. fadd x (hd b)) a)
      else Inl ShapeMismatch)"

subsection \<open>pandas calls\<close>

text \<open>
  A timestamp is a count of nanoseconds since 1970-01-01 00:00, between
  \<open>- Timestamp_max\<close> and \<open>Timestamp_max\<close>.
\<close>

type_synonym timestamp = int

definition day_ns :: int where
  "day_ns = 86400 * 10 ^ 9"

text \<open>The timestamp of \<open>'2020-01-01'\<close>.\<close>

definition ts_2020_01_01 :: timestamp where
  "ts_2020_01_01 = 1577836800 * 10 ^ 9"

text \<open>
  \<open>pd.date_range(start=..., periods=..., freq='D')\<close>: the start has to be a timestamp, the
  number of periods must not be negative, and the last day of the range has to be a
  timestamp; then the days are \<open>start + i\<close> days for \<open>i < periods\<close>.
\<close>

definition pd_date_range :: "'g numlib \<Rightarrow> int \<Rightarrow> int \<Rightarrow> py_error + timestamp list" where
  "pd_date_range lib start periods =
     (if start < - Timestamp_max lib \<or> Timestamp_max lib < start then Inl OutOfBoundsDatetime
      else if periods < 0 then Inl NegativePeriods
      else if Timestamp_max lib < start + (periods - 1) * day_ns then Inl OutOfBoundsDatetime
      else Inr (map (\<lambda>i. start + int i * day_ns) [0..<nat periods]))"

text \<open>
  A DataFrame indexed by date: the index and the named columns, in order. A Series is a
  column with the index beside it.
\<close>

record frame =
  index :: "timestamp list"
  columns :: "(string \<times> double list) list"

type_synonym series = "(timestamp \<times> double) list"

text \<open>\<open>pd.DataFrame({'Date': dates, 'Value': data}).set_index('Date')\<close>.\<close>

definition pd_DataFrame :: "timestamp list \<Rightarrow> double list \<Rightarrow> py_error + frame" where
  "pd_DataFrame dates data =
     (if length dates \<noteq> length data then Inl LengthMismatch
      else Inr \<lparr>index = dates, columns = [(''Value'', data)]\<rparr>)"

text \<open>\<open>df[name]\<close>.\<close>

definition getitem :: "frame \<Rightarrow> string \<Rightarrow> py_error + series" where
  "getitem df name =
     (case map_of (columns df) name of
        None \<Rightarrow> Inl (KeyError name)
      | Some vs \<Rightarrow> Inr (zip (index df) vs))"

text \<open>
  \<open>df[name] = s\<close>: the column is replaced where it stands, or added at the end. A Series
  with the frame's own index is stored as it is; any other is aligned on the labels, NaN
  where a label is missing.
\<close>

definition setitem :: "frame \<Rightarrow> string \<Rightarrow> series \<Rightarrow> frame" where
  "setitem df name s =
     df\<lparr>columns :=
          AList.update name
            (if map fst s = index df then map snd s
             else map (\<lambda>t. case map_of s t of None \<Rightarrow> NaN | Some v \<Rightarrow> v) (index df))
            (columns df)\<rparr>"

definition Series_diff :: "series \<Rightarrow> series" where
  "Series_diff s = zip (map fst s) (values_diff (map snd s))"

definition Series_dropna :: "series \<Rightarrow> series" where
  "Series_dropna s = filter (\<lambda>(t, v). \<not> isnan v) s"

subsection \<open>The ADF cells\<close>

text \<open>What a cell prints: a number after its label or format, or a line of text.\<close>

datatype printed = PrintNum string double | PrintText string

text \<open>The lines of text among what was printed: the classifications.\<close>

fun is_text :: "printed \<Rightarrow> bool" where
  "is_text (PrintText _) = True"
| "is_text (PrintNum _ _) = False"

text \<open>The literal \<open>0.05\<close>: the decimal, rounded to binary64 as Python reads it.\<close>

definition lit_0_05 :: double where
  "lit_0_05 = fl (5 / 100)"

text \<open>
  The three ADF cells share their shape: two \<open>print\<close>s of the result, then
  \<open>if result[1] < 0.05: print(yes) else: print(no)\<close>.
\<close>

definition adf_report :: "string \<Rightarrow> string \<Rightarrow> string \<Rightarrow> string \<Rightarrow> adf_result \<Rightarrow> printed list" where
  "adf_report stat_label p_label yes no result =
     [PrintNum stat_label (statistic result),
      PrintNum p_label (pvalue result),
      (if flt (pvalue result) lit_0_05 then PrintText yes else PrintText no)]"

text \<open>Introduction notebook: \<open>result = adfuller(ts_df['Value'])\<close> and its prints.\<close>

definition intro_adf_cell :: "adf_test \<Rightarrow> frame \<Rightarrow> py_error + printed list" where
  "intro_adf_cell adfuller ts_df =
     (case getitem ts_df ''Value'' of
        Inl e \<Rightarrow> Inl e
      | Inr s \<Rightarrow>
          (case adfuller (map snd s) of
             Inl e \<Rightarrow> Inl e
           | Inr result \<Rightarrow>
               Inr (adf_report ''ADF Statistic:'' ''p-value:''
                      ''The time series is likely stationary.''
                      ''The time series is likely non-stationary.'' result)))"

text \<open>Lesson 3: \<open>result = adfuller(df['Value'])\<close> and its prints.\<close>

definition lesson3_adf_cell :: "adf_test \<Rightarrow> frame \<Rightarrow> py_error + printed list" where
  "lesson3_adf_cell adfuller df =
     (case getitem df ''Value'' of
        Inl e \<Rightarrow> Inl e
      | Inr s \<Rightarrow>
          (case adfuller (map snd s) of
             Inl e \<Rightarrow> Inl e
           | Inr result \<Rightarrow>
               Inr (adf_report ''ADF Statistic: %f'' ''p-value: %f''
                      ''The series is likely stationary.''
                      ''The series is likely non-stationary.'' result)))"

text \<open>Lesson 3: \<open>df['Value_diff'] = df['Value'].diff()\<close>.\<close>

definition lesson3_diff_cell :: "frame \<Rightarrow> py_error + frame" where
  "lesson3_diff_cell df =
     (case getitem df ''Value'' of
        Inl e \<Rightarrow> Inl e
      | Inr s \<Rightarrow> Inr (setitem df ''Value_diff'' (Series_diff s)))"

text \<open>
  Lesson 3: \<open>df_diff = df['Value_diff'].dropna()\<close>, \<open>result_diff = adfuller(df_diff)\<close>
  and its prints.
\<close>

definition lesson3_adf_diff_cell :: "adf_test \<Rightarrow> frame \<Rightarrow> py_error + printed list" where
  "lesson3_adf_diff_cell adfuller df =
     (case getitem df ''Value_diff'' of
        Inl e \<Rightarrow> Inl e
      | Inr s \<Rightarrow>
          (let df_diff = Series_dropna s in
           case adfuller (map snd df_diff) of
             Inl e \<Rightarrow> Inl e
           | Inr result_diff \<Rightarrow>
               Inr (adf_report ''ADF Statistic (Differenced): %f'' ''p-value (Differenced): %f''
                      ''The differenced series is likely stationary.''
                      ''The differenced series is likely non-stationary.'' result_diff)))"

subsection \<open>The generator cells\<close>

text \<open>
  The synthetic series of the introduction notebook. The cell is written with literals;
  the numbers the specification calls configured are the fields of \<open>gen_params\<close>, and
  \<open>intro_params\<close> holds the literals of the cell. \<open>g0\<close> is the state of the global
  generator when the cell starts.
\<close>

record gen_params =
  seed_value :: int
  count :: int
  start_date :: int
  trend_max :: double
  amplitude :: double
  half_cycles :: double
  noise_loc :: double
  noise_scale :: double

definition intro_params :: gen_params where
  "intro_params =
     \<lparr>seed_value = 42, count = 100, start_date = ts_2020_01_01, trend_max = Fin 10,
      amplitude = Fin 5, half_cycles = Fin 3, noise_loc = Fin 0, noise_scale = Fin 1\<rparr>"

definition synthetic_series :: "'g numlib \<Rightarrow> gen_params \<Rightarrow> 'g \<Rightarrow> py_error + (frame \<times> 'g)" where
  "synthetic_series lib P g0 =
     (case np_random_seed lib (seed_value P) of
        Inl e \<Rightarrow> Inl e
      | Inr g1 \<Rightarrow>
      (case pd_date_range lib (start_date P) (count P) of
        Inl e \<Rightarrow> Inl e
      | Inr dates \<Rightarrow>
      (case np_linspace (Fin 0) (trend_max P) (count P) of
        Inl e \<Rightarrow> Inl e
      | Inr trend \<Rightarrow>
      (case np_linspace (Fin 0) (fmul (half_cycles P) np_pi) (count P) of
        Inl e \<Rightarrow> Inl e
      | Inr grid \<Rightarrow>
      (let seasonality = map (\<lambda>x. fmul (amplitude P) (np_sin lib x)) grid in
       case np_random_normal lib (noise_loc P) (noise_scale P) (count P) g1 of
        Inl e \<Rightarrow> Inl e
      | Inr (noise, g2) \<Rightarrow>
      (case np_add trend seasonality of
        Inl e \<Rightarrow> Inl e
      | Inr ts \<Rightarrow>
      (case np_add ts noise of
        Inl e \<Rightarrow> Inl e
      | Inr data \<Rightarrow>
      (case pd_DataFrame dates data of
        Inl e \<Rightarrow> Inl e
      | Inr ts_df \<Rightarrow> Inr (ts_df, g2)))))))))"

text \<open>The introduction notebook, top to bottom: the frame, what was printed, the generator.\<close>

definition intro :: "'g numlib \<Rightarrow> adf_test \<Rightarrow> 'g \<Rightarrow> py_error + (frame \<times> printed list \<times> 'g)" where
  "intro lib adfuller g0 =
     (case synthetic_series lib intro_params g0 of
        Inl e \<Rightarrow> Inl e
      | Inr (ts_df, g) \<Rightarrow>
          (case intro_adf_cell adfuller ts_df of
             Inl e \<Rightarrow> Inl e
           | Inr out \<Rightarrow> Inr (ts_df, out, g)))"

text \<open>
  The random walk of Lesson 3, for the \<open>n\<close> of the cell (\<open>n = 100\<close> there); the steps are
  returned beside the frame.
\<close>

definition random_walk_frame ::
  "'g numlib \<Rightarrow> int \<Rightarrow> 'g \<Rightarrow> py_error + (frame \<times> double list \<times> 'g)" where
  "random_walk_frame lib n g0 =
     (case np_random_seed lib 42 of
        Inl e \<Rightarrow> Inl e
      | Inr g1 \<Rightarrow>
      (case np_random_normal lib (Fin 0) (Fin 1) n g1 of
        Inl e \<Rightarrow> Inl e
      | Inr (steps, g2) \<Rightarrow>
          (let random_walk = np_cumsum steps in
           case pd_date_range lib ts_2020_01_01 n of
             Inl e \<Rightarrow> Inl e
           | Inr dates \<Rightarrow>
               (case pd_DataFrame dates random_walk of
                  Inl e \<Rightarrow> Inl e
                | Inr df \<Rightarrow> Inr (df, steps, g2)))))"

text \<open>Lesson 3, top to bottom: the final frame, what was printed, the generator.\<close>

definition lesson3 ::
  "'g numlib \<Rightarrow> adf_test \<Rightarrow> int \<Rightarrow> 'g \<Rightarrow> py_error + (frame \<times> printed list \<times> 'g)" where
  "lesson3 lib adfuller n g0 =
     (case random_walk_frame lib n g0 of
        Inl e \<Rightarrow> Inl e
      | Inr (df, steps, g) \<Rightarrow>
          (case lesson3_adf_cell adfuller df of
             Inl e \<Rightarrow> Inl e
           | Inr out1 \<Rightarrow>
               (case lesson3_diff_cell df of
                  Inl e \<Rightarrow> Inl e
                | Inr df' \<Rightarrow>
                    (case lesson3_adf_diff_cell adfuller df' of
                       Inl e \<Rightarrow> Inl e
                     | Inr out2 \<Rightarrow> Inr (df', out1 @ out2, g)))))"

subsection \<open>The hypothesis test\<close>

text \<open>
  Modelled from the spec: the hypothesis test is statsmodels' \<open>adfuller\<close>, which is not part
  of the sources. The specification says of it that it returns a test statistic and a
  p-value and that it fails if fewer than a minimal number of observations are supplied.
  \<open>min_obs\<close> is that number and \<open>test\<close> the statistic and p-value it computes.
\<close>

definition adfuller_spec :: "nat \<Rightarrow> (double list \<Rightarrow> adf_result) \<Rightarrow> adf_test" where
  "adfuller_spec min_obs test x =
     (if length x < min_obs then Inl InsufficientSample else Inr (test x))"

subsection \<open>Stand-ins for the library parameters\<close>

text \<open>
  The theorems below hold for every library. Where a statement is run on a concrete
  input, \<open>counter_lib\<close> and \<open>length_test\<close> stand in: the generator state is a counter,
  every draw is \<open>0\<close>, the sine is the identity, the timestamps have nanosecond resolution,
  and the test accepts four observations or more and returns zeros.
\<close>

definition counter_lib :: "nat numlib" where
  "counter_lib =
     \<lparr>init_by_seed = (\<lambda>s. s), legacy_gauss = (\<lambda>g. (Fin 0, Suc g)), np_sin = (\<lambda>x. x),
      Timestamp_max = 2 ^ 63 - 1\<rparr>"

definition length_test :: adf_test where
  "length_test = adfuller_spec 4 (\<lambda>x. \<lparr>statistic = Fin 0, pvalue = Fin 0\<rparr>)"

text \<open>A frame of five days with both columns, for running the cells.\<close>

definition sample_frame :: frame where
  "sample_frame =
     \<lparr>index = map (\<lambda>i. ts_2020_01_01 + int i * day_ns) [0..<5],
      columns = [(''Value'', [Fin 1, Fin 2, Fin 4, Fin 7, Fin 11]),
                 (''Value_diff'', [NaN, Fin 1, Fin 2, Fin 3, Fin 4])]\<rparr>"

section \<open>Properties\<close>

subsection \<open>Evaluating the rounding\<close>

lemma ulp_exp_eq:
  assumes "j \<le> k" "k \<le> 2045" "y < 2 ^ (53 + k) \<or> k = 2045" "k = j \<or> 2 ^ (52 + k) \<le> y"
  shows "ulp_exp y j = k"
  using assms
proof (induction "k - j" arbitrary: j)
  case 0
  then have "j = k" by simp
  with 0 show ?case by (subst ulp_exp.simps) auto
next
  case (Suc d)
  then have lt: "j < k" by simp
  with Suc.prems have le: "(2::real) ^ (52 + k) \<le> y" by simp
  have "53 + j \<le> 52 + k" using lt by simp
  then have "(2::real) ^ (53 + j) \<le> 2 ^ (52 + k)"
    by (intro power_increasing) auto
  from this le have a: "(2::real) ^ (53 + j) \<le> y" by (rule order_trans)
  have b: "j < 2045" using lt Suc.prems by simp
  have "ulp_exp y (j + 1) = k"
    using Suc lt by (intro Suc.hyps) auto
  with a b show ?case by (subst ulp_exp.simps) simp
qed

text \<open>With the binade \<open>k\<close> of \<open>x\<close> given, \<open>fl x\<close> is one rounding of a quotient.\<close>

lemma fl_eval:
  assumes "x \<noteq> 0" "k \<le> 2045"
    and "\<bar>x\<bar> * 2 ^ 1074 < 2 ^ (53 + k) \<or> k = 2045"
    and "k = 0 \<or> 2 ^ (52 + k) \<le> \<bar>x\<bar> * 2 ^ 1074"
  shows "fl x = (let v = of_int (rne (\<bar>x\<bar> * 2 ^ 1074 / 2 ^ k)) * 2 ^ k / 2 ^ 1074
     in if 2 ^ 1024 \<le> v then (if 0 < x then PInf else NInf)
        else Fin (if 0 < x then v else - v))"
proof -
  have "ulp_exp (\<bar>x\<bar> * 2 ^ 1074) 0 = k"
    using assms by (intro ulp_exp_eq) auto
  then show ?thesis unfolding fl_def Let_def using assms(1) by presburger
qed

lemma fl_0 [simp]: "fl 0 = Fin 0"
  by (simp add: fl_def)

lemma fl_not_NaN [simp]: "fl x \<noteq> NaN"
  by (simp add: fl_def Let_def)

lemma fl_1 [simp]: "fl 1 = Fin 1"
  by (simp add: fl_eval [where k = 1022] rne_def Let_def)

lemma fl_2 [simp]: "fl 2 = Fin 2"
  by (simp add: fl_eval [where k = 1023] rne_def Let_def)

lemma fl_3 [simp]: "fl 3 = Fin 3"
  by (simp add: fl_eval [where k = 1023] rne_def Let_def)

lemma is_double_1: "is_double 1"
  by (simp add: is_double_def)

lemma fsub_Fin [simp]: "fsub (Fin x) (Fin y) = fl (x - y)"
  by (simp add: fsub_def)

lemma fsub_finite_not_NaN: "isfinite a \<Longrightarrow> isfinite b \<Longrightarrow> \<not> isnan (fsub a b)"
  by (cases a; cases b) (auto simp: fsub_def elim: isnan.elims)

lemma ulp_exp_props:
  assumes "k0 \<le> 2045" "k0 = 0 \<or> 2 ^ (52 + k0) \<le> y"
  shows "ulp_exp y k0 \<le> 2045 \<and>
         (y < 2 ^ (53 + ulp_exp y k0) \<or> ulp_exp y k0 = 2045) \<and>
         (ulp_exp y k0 = 0 \<or> 2 ^ (52 + ulp_exp y k0) \<le> y)"
  using assms
proof (induction y k0 rule: ulp_exp.induct)
  case (1 y k)
  show ?case
  proof (cases "k < 2045 \<and> 2 ^ (53 + k) \<le> y")
    case True
    then have e: "ulp_exp y k = ulp_exp y (k + 1)" by (subst ulp_exp.simps) simp
    have a: "k + 1 \<le> 2045" using True by simp
    have b: "k + 1 = 0 \<or> 2 ^ (52 + (k + 1)) \<le> y" using True by simp
    from "1.IH" [OF True a b] show ?thesis unfolding e .
  next
    case False
    then have e: "ulp_exp y k = k" by (subst ulp_exp.simps) auto
    show ?thesis unfolding e using False "1.prems" by auto
  qed
qed

lemma rne_of_int [simp]: "rne (of_int m) = m"
  by (simp add: rne_def)

lemma rne_ge: "of_int a \<le> x \<Longrightarrow> a \<le> rne x"
proof -
  assume "of_int a \<le> x"
  then have "a \<le> \<lfloor>x\<rfloor>" by (simp add: le_floor_iff)
  moreover have "\<lfloor>x\<rfloor> \<le> rne x" by (simp add: rne_def Let_def)
  ultimately show ?thesis by simp
qed

lemma rne_le: "x \<le> of_int b \<Longrightarrow> rne x \<le> b"
proof -
  assume le: "x \<le> of_int b"
  then have f: "\<lfloor>x\<rfloor> \<le> b" by (simp add: floor_le_iff) 
  show ?thesis
  proof (cases "\<lfloor>x\<rfloor> = b")
    case True
    with le have "x = of_int b" using of_int_floor_le [of x] by simp
    then show ?thesis by simp
  next
    case False
    with f have "\<lfloor>x\<rfloor> + 1 \<le> b" by simp
    moreover have "rne x \<le> \<lfloor>x\<rfloor> + 1" by (simp add: rne_def Let_def)
    ultimately show ?thesis by simp
  qed
qed


text \<open>Every finite result of the rounding is a binary64 value.\<close>

lemma fl_idem:
  assumes "fl x = Fin v"
  shows "is_double v"
proof (cases "x = 0")
  case True
  with assms show ?thesis by (simp add: is_double_def)
next
  case False
  define y where "y = \<bar>x\<bar> * 2 ^ 1074"
  define k where "k = ulp_exp y 0"
  define m where "m = rne (y / 2 ^ k)"
  define w :: real where "w = of_int m * 2 ^ k / 2 ^ 1074"
  have flx: "fl x = (if 2 ^ 1024 \<le> w then (if 0 < x then PInf else NInf)
      else Fin (if 0 < x then w else - w))"
    using False unfolding fl_def Let_def w_def m_def k_def y_def by (simp only: if_False)
  with assms have small: "\<not> 2 ^ 1024 \<le> w" and v: "v = (if 0 < x then w else - w)"
    by (auto split: if_splits)
  have y0: "0 \<le> y" by (simp add: y_def)
  then have "(0::real) \<le> y / 2 ^ k" by simp
  then have m0: "0 \<le> m" unfolding m_def using rne_ge [of 0 "y / 2 ^ k"] by simp
  then have w0: "0 \<le> w" by (simp add: w_def)
  from ulp_exp_props [of 0 y]
  have k: "k \<le> 2045" and up: "y < 2 ^ (53 + k) \<or> k = 2045" and lo: "k = 0 \<or> 2 ^ (52 + k) \<le> y"
    by (simp_all add: k_def)
  have av: "\<bar>v\<bar> = w" using v w0 by auto
  have yv: "\<bar>v\<bar> * 2 ^ 1074 = of_int m * 2 ^ k" by (simp add: av w_def)
  have m_hi: "m \<le> 2 ^ 53"
  proof (cases "y < 2 ^ (53 + k)")
    case True
    then have "y / 2 ^ k \<le> 2 ^ 53" by (simp add: power_add field_simps)
    then have "y / 2 ^ k \<le> of_int (2 ^ 53)" by simp
    then show ?thesis unfolding m_def by (rule rne_le)
  next
    case False
    with up have k2045: "k = 2045" by simp
    from small have "w < 2 ^ 1024" by simp
    then have "of_int m * 2 ^ 2045 < (2::real) ^ 1024 * 2 ^ 1074"
      by (simp add: w_def k2045 field_simps)
    also have "\<dots> = 2 ^ 53 * 2 ^ 2045" by (simp add: power_add [symmetric])
    finally have "(of_int m :: real) < 2 ^ 53" by simp
    then have "(of_int m :: real) < of_int (2 ^ 53)" by simp
    then have "m < 2 ^ 53" by (simp only: of_int_less_iff)
    then show ?thesis by simp
  qed
  have m_lo: "k = 0 \<or> 2 ^ 52 \<le> m"
  proof (cases "k = 0")
    case True
    then show ?thesis by simp
  next
    case False
    with lo have "2 ^ (52 + k) \<le> y" by simp
    then have "(2::real) ^ 52 \<le> y / 2 ^ k" by (simp add: power_add field_simps)
    then have "of_int (2 ^ 52) \<le> y / 2 ^ k" by simp
    then have "2 ^ 52 \<le> m" unfolding m_def by (rule rne_ge)
    then show ?thesis by simp
  qed
  show ?thesis
  proof (cases "w = 0")
    case True
    with v show ?thesis by (simp add: is_double_def)
  next
    case wn: False
    then have vn: "v \<noteq> 0" using v by auto
    have mpos: "0 < m" using wn m0 by (cases "m = 0") (simp_all add: w_def)
    have sgn: "(if 0 < v then w else - w) = v" using v w0 wn by auto
    show ?thesis
    proof (cases "m = 2 ^ 53")
      case False
      with m_hi have mlt: "m < 2 ^ 53" by simp
      then have "(of_int m :: real) < of_int (2 ^ 53)" by (simp only: of_int_less_iff)
      then have a: "\<bar>v\<bar> * 2 ^ 1074 < 2 ^ (53 + k) \<or> k = 2045"
        unfolding yv power_add by simp
      have b: "k = 0 \<or> 2 ^ (52 + k) \<le> \<bar>v\<bar> * 2 ^ 1074"
      proof (cases "k = 0")
        case False
        with m_lo have "2 ^ 52 \<le> m" by simp
        then have "(of_int (2 ^ 52) :: real) \<le> of_int m" by (simp only: of_int_le_iff)
        then show ?thesis unfolding yv power_add by simp
      qed simp
      have q: "\<bar>v\<bar> * 2 ^ 1074 / 2 ^ k = of_int m" unfolding yv by simp
      have "fl v = (let u = of_int (rne (\<bar>v\<bar> * 2 ^ 1074 / 2 ^ k)) * 2 ^ k / 2 ^ 1074
         in if 2 ^ 1024 \<le> u then (if 0 < v then PInf else NInf)
            else Fin (if 0 < v then u else - u))"
        by (rule fl_eval [OF vn k a b])
      then have "fl v = Fin (if 0 < v then w else - w)"
        unfolding Let_def q rne_of_int w_def [symmetric] using small by (simp only: if_False)
      then show ?thesis by (simp only: sgn is_double_def)
    next
      case True
      have klt: "k < 2045"
      proof (rule ccontr)
        assume "\<not> k < 2045"
        with k have "k = 2045" by simp
        then have "w = 2 ^ 53 * 2 ^ 2045 / 2 ^ 1074" by (simp add: w_def True)
        also have "\<dots> = 2 ^ 1024 * 2 ^ 1074 / 2 ^ 1074" by (simp add: power_add [symmetric])
        finally have "w = 2 ^ 1024" by simp
        with small show False by simp
      qed
      have yv': "\<bar>v\<bar> * 2 ^ 1074 = 2 ^ (53 + k)" unfolding yv True power_add by simp
      have q: "\<bar>v\<bar> * 2 ^ 1074 / 2 ^ (k + 1) = of_int (2 ^ 52)"
        unfolding yv' power_add by simp
      have w': "of_int (2 ^ 52) * 2 ^ (k + 1) / 2 ^ 1074 = w"
        by (simp add: w_def True power_add)
      have c1: "\<bar>v\<bar> * 2 ^ 1074 < 2 ^ (53 + (k + 1)) \<or> k + 1 = 2045"
        unfolding yv' by simp
      have c2: "k + 1 = 0 \<or> 2 ^ (52 + (k + 1)) \<le> \<bar>v\<bar> * 2 ^ 1074"
        unfolding yv' by simp
      have c0: "k + 1 \<le> 2045" using klt by simp
      have "fl v = (let u = of_int (rne (\<bar>v\<bar> * 2 ^ 1074 / 2 ^ (k + 1))) * 2 ^ (k + 1) / 2 ^ 1074
         in if 2 ^ 1024 \<le> u then (if 0 < v then PInf else NInf)
            else Fin (if 0 < v then u else - u))"
        by (rule fl_eval [OF vn c0 c1 c2])
      then have "fl v = Fin (if 0 < v then w else - w)"
        unfolding Let_def q rne_of_int w' using small by (simp only: if_False)
      then show ?thesis by (simp only: sgn is_double_def)
    qed
  qed
qed

text \<open>The rounding of a nonzero number, taken apart: the binade, the mantissa, the value.\<close>

lemma fl_decompose:
  assumes "x \<noteq> 0"
  shows "\<exists>k m w. k \<le> 2045 \<and>
    (\<bar>x\<bar> * 2 ^ 1074 < 2 ^ (53 + k) \<or> k = 2045) \<and>
    (k = 0 \<or> 2 ^ (52 + k) \<le> \<bar>x\<bar> * 2 ^ 1074) \<and>
    m = rne (\<bar>x\<bar> * 2 ^ 1074 / 2 ^ k) \<and>
    0 \<le> m \<and> (k = 0 \<or> 2 ^ 52 \<le> m) \<and>
    (\<bar>x\<bar> * 2 ^ 1074 < 2 ^ (53 + k) \<longrightarrow> m \<le> 2 ^ 53) \<and>
    w = real_of_int m * 2 ^ k / 2 ^ 1074 \<and>
    fl x = (if 2 ^ 1024 \<le> w then (if 0 < x then PInf else NInf)
            else Fin (if 0 < x then w else - w))"
proof -
  define y where "y = \<bar>x\<bar> * 2 ^ 1074"
  define k where "k = ulp_exp y 0"
  define m where "m = rne (y / 2 ^ k)"
  define w where "w = real_of_int m * 2 ^ k / 2 ^ 1074"
  have flx: "fl x = (if 2 ^ 1024 \<le> w then (if 0 < x then PInf else NInf)
            else Fin (if 0 < x then w else - w))"
    using assms unfolding fl_def Let_def w_def m_def k_def y_def by (simp only: if_False)
  have y0: "0 \<le> y" by (simp add: y_def)
  then have "(0::real) \<le> y / 2 ^ k" by simp
  then have m0: "0 \<le> m" unfolding m_def using rne_ge [of 0 "y / 2 ^ k"] by simp
  from ulp_exp_props [of 0 y]
  have k: "k \<le> 2045" and up: "y < 2 ^ (53 + k) \<or> k = 2045" and lo: "k = 0 \<or> 2 ^ (52 + k) \<le> y"
    by (simp_all add: k_def)
  have m_lo: "k = 0 \<or> 2 ^ 52 \<le> m"
  proof (cases "k = 0")
    case True
    then show ?thesis by simp
  next
    case False
    with lo have "2 ^ (52 + k) \<le> y" by simp
    then have "(2::real) ^ 52 \<le> y / 2 ^ k" by (simp add: power_add field_simps)
    then have "of_int (2 ^ 52) \<le> y / 2 ^ k" by simp
    then have "2 ^ 52 \<le> m" unfolding m_def by (rule rne_ge)
    then show ?thesis by simp
  qed
  have m_hi: "y < 2 ^ (53 + k) \<longrightarrow> m \<le> 2 ^ 53"
  proof
    assume "y < 2 ^ (53 + k)"
    then have "y / 2 ^ k \<le> 2 ^ 53" by (simp add: power_add field_simps)
    then have "y / 2 ^ k \<le> of_int (2 ^ 53)" by simp
    then show "m \<le> 2 ^ 53" unfolding m_def by (rule rne_le)
  qed
  have "k \<le> 2045 \<and> (y < 2 ^ (53 + k) \<or> k = 2045) \<and> (k = 0 \<or> 2 ^ (52 + k) \<le> y) \<and>
    m = rne (y / 2 ^ k) \<and> 0 \<le> m \<and> (k = 0 \<or> 2 ^ 52 \<le> m) \<and>
    (y < 2 ^ (53 + k) \<longrightarrow> m \<le> 2 ^ 53) \<and> w = real_of_int m * 2 ^ k / 2 ^ 1074 \<and>
    fl x = (if 2 ^ 1024 \<le> w then (if 0 < x then PInf else NInf)
            else Fin (if 0 < x then w else - w))"
    using k up lo m0 m_lo m_hi flx m_def w_def by blast
  then show ?thesis unfolding y_def by blast
qed

lemma fl_ge_1_nonzero:
  assumes "1 \<le> \<bar>x\<bar>"
  shows "fl x \<noteq> Fin 0"
proof -
  from assms have x: "x \<noteq> 0" by auto
  from fl_decompose [OF x] obtain k m w where k: "k \<le> 2045"
    and up: "\<bar>x\<bar> * 2 ^ 1074 < 2 ^ (53 + k) \<or> k = 2045"
    and mlo: "k = 0 \<or> 2 ^ 52 \<le> m"
    and w: "w = real_of_int m * 2 ^ k / 2 ^ 1074"
    and flx: "fl x = (if 2 ^ 1024 \<le> w then (if 0 < x then PInf else NInf)
            else Fin (if 0 < x then w else - w))"
    by blast
  have big: "(2::real) ^ 1074 \<le> \<bar>x\<bar> * 2 ^ 1074" using assms by simp
  have "k \<noteq> 0"
  proof
    assume k0: "k = 0"
    with up have "\<bar>x\<bar> * 2 ^ 1074 < 2 ^ 53" by simp
    with big have "(2::real) ^ 1074 < 2 ^ 53" by (rule le_less_trans)
    then show False by simp
  qed
  with mlo have "2 ^ 52 \<le> m" by simp
  then have "m \<noteq> 0" by simp
  then have "w \<noteq> 0" unfolding w by simp
  then show ?thesis unfolding flx by (auto split: if_splits)
qed

lemma fl_finite:
  assumes "\<bar>x\<bar> \<le> (2 ^ 53 - 1) * 2 ^ 971"
  shows "isfinite (fl x)"
proof (cases "x = 0")
  case True
  then show ?thesis by simp
next
  case False
  from fl_decompose [OF False] obtain k m w where k: "k \<le> 2045"
    and up: "\<bar>x\<bar> * 2 ^ 1074 < 2 ^ (53 + k) \<or> k = 2045"
    and m: "m = rne (\<bar>x\<bar> * 2 ^ 1074 / 2 ^ k)"
    and mhi: "\<bar>x\<bar> * 2 ^ 1074 < 2 ^ (53 + k) \<longrightarrow> m \<le> 2 ^ 53"
    and w_def: "w = real_of_int m * 2 ^ k / 2 ^ 1074"
    and flx: "fl x = (if 2 ^ 1024 \<le> w then (if 0 < x then PInf else NInf)
            else Fin (if 0 < x then w else - w))"
    by blast
  have "w * 2 ^ 1074 < 2 ^ 1024 * 2 ^ 1074"
  proof (cases "k = 2045")
    case True
    have "\<bar>x\<bar> * 2 ^ 1074 \<le> (2 ^ 53 - 1) * 2 ^ 971 * 2 ^ 1074"
      using assms by (rule mult_right_mono) simp
    also have "\<dots> = (2 ^ 53 - 1) * (2 ^ 971 * 2 ^ 1074)" by (simp only: mult.assoc)
    also have "\<dots> = (2 ^ 53 - 1) * 2 ^ 2045" by (simp only: power_add [symmetric]) simp
    finally have "\<bar>x\<bar> * 2 ^ 1074 / 2 ^ 2045 \<le> 2 ^ 53 - 1"
      by (simp only: pos_divide_le_eq zero_less_power zero_less_numeral)
    then have "\<bar>x\<bar> * 2 ^ 1074 / 2 ^ 2045 \<le> of_int (2 ^ 53 - 1)" by simp
    then have "m \<le> 2 ^ 53 - 1" unfolding m True by (rule rne_le)
    then have "m < 2 ^ 53" by simp
    then have "real_of_int m < of_int (2 ^ 53)" by (simp only: of_int_less_iff)
    then have "real_of_int m * 2 ^ 2045 < 2 ^ 53 * 2 ^ 2045" by simp
    also have "\<dots> = (2::real) ^ 1024 * 2 ^ 1074" by (simp only: power_add [symmetric]) simp
    finally show ?thesis unfolding w_def True by simp
  next
    case False
    with up k have lt: "\<bar>x\<bar> * 2 ^ 1074 < 2 ^ (53 + k)" and k': "k \<le> 2044" by simp_all
    from mhi lt have "m \<le> 2 ^ 53" by simp
    then have "real_of_int m \<le> of_int (2 ^ 53)" by (simp only: of_int_le_iff)
    then have "real_of_int m * 2 ^ k \<le> 2 ^ 53 * 2 ^ k" by simp
    also have "\<dots> = (2::real) ^ (53 + k)" by (simp only: power_add)
    also have "\<dots> \<le> 2 ^ (53 + 2044)" using k' by (intro power_increasing) simp_all
    also have "\<dots> < (2::real) ^ (1024 + 1074)" by (intro power_strict_increasing) simp_all
    also have "\<dots> = (2::real) ^ 1024 * 2 ^ 1074" by (simp only: power_add)
    finally show ?thesis unfolding w_def by simp
  qed
  then have "w < 2 ^ 1024" by (simp only: mult_less_cancel_right_pos zero_less_power zero_less_numeral)
  then have "\<not> 2 ^ 1024 \<le> w" by simp
  then show ?thesis unfolding flx by simp
qed

lemma is_double_bound:
  assumes "is_double v"
  shows "\<bar>v\<bar> \<le> (2 ^ 53 - 1) * 2 ^ 971"
proof (cases "v = 0")
  case True
  then show ?thesis by simp
next
  case False
  from fl_decompose [OF False] obtain k m w where k: "k \<le> 2045"
    and up: "\<bar>v\<bar> * 2 ^ 1074 < 2 ^ (53 + k) \<or> k = 2045"
    and m0: "0 \<le> m"
    and mhi: "\<bar>v\<bar> * 2 ^ 1074 < 2 ^ (53 + k) \<longrightarrow> m \<le> 2 ^ 53"
    and w_def: "w = real_of_int m * 2 ^ k / 2 ^ 1074"
    and flv: "fl v = (if 2 ^ 1024 \<le> w then (if 0 < v then PInf else NInf)
            else Fin (if 0 < v then w else - w))"
    by blast
  have w0: "0 \<le> w" using m0 by (simp add: w_def)
  have wm: "w * 2 ^ 1074 = real_of_int m * 2 ^ k" by (simp add: w_def)
  from assms have "fl v = Fin v" by (simp only: is_double_def)
  then have small: "w < 2 ^ 1024" and v: "v = (if 0 < v then w else - w)"
    unfolding flv by (auto split: if_splits)
  from v w0 have av: "\<bar>v\<bar> = w" by (auto split: if_splits)
  from small have "w * 2 ^ 1074 < 2 ^ 1024 * 2 ^ 1074"
    by (simp only: mult_less_cancel_right_pos zero_less_power zero_less_numeral)
  then have s: "real_of_int m * 2 ^ k < 2 ^ 1024 * 2 ^ 1074" by (simp only: wm)
  have "real_of_int m * 2 ^ k \<le> (2 ^ 53 - 1) * 2 ^ 2045"
  proof (cases "k = 2045")
    case True
    have "(2::real) ^ 1024 * 2 ^ 1074 = 2 ^ 53 * 2 ^ 2045"
      by (simp only: power_add [symmetric]) simp
    with s have "real_of_int m * 2 ^ 2045 < 2 ^ 53 * 2 ^ 2045" by (simp only: True)
    then have "real_of_int m < 2 ^ 53"
      by (simp only: mult_less_cancel_right_pos zero_less_power zero_less_numeral)
    then have "real_of_int m < of_int (2 ^ 53)" by simp
    then have "m < 2 ^ 53" by (simp only: of_int_less_iff)
    then have "m \<le> 2 ^ 53 - 1" by simp
    then have "real_of_int m \<le> of_int (2 ^ 53 - 1)" by (simp only: of_int_le_iff)
    then have "real_of_int m \<le> 2 ^ 53 - 1" by simp
    then have "real_of_int m * 2 ^ 2045 \<le> (2 ^ 53 - 1) * 2 ^ 2045"
      by (rule mult_right_mono) simp
    then show ?thesis by (simp only: True)
  next
    case False
    with up k have lt: "\<bar>v\<bar> * 2 ^ 1074 < 2 ^ (53 + k)" and k': "k \<le> 2044" by simp_all
    from mhi lt have "m \<le> 2 ^ 53" by simp
    then have "real_of_int m \<le> of_int (2 ^ 53)" by (simp only: of_int_le_iff)
    then have "real_of_int m * 2 ^ k \<le> 2 ^ 53 * 2 ^ k" by simp
    also have "\<dots> = (2::real) ^ (53 + k)" by (simp only: power_add)
    also have "\<dots> \<le> 2 ^ (53 + 2044)" using k' by (intro power_increasing) simp_all
    also have "\<dots> = (2::real) ^ 52 * 2 ^ 2045" by (simp only: power_add [symmetric]) simp
    also have "\<dots> \<le> (2 ^ 53 - 1) * 2 ^ 2045" by (rule mult_right_mono) simp_all
    finally show ?thesis .
  qed
  also have "\<dots> = (2 ^ 53 - 1) * ((2::real) ^ 971 * 2 ^ 1074)"
    by (simp only: power_add [symmetric]) simp
  also have "\<dots> = (2 ^ 53 - 1) * 2 ^ 971 * (2::real) ^ 1074" by (simp only: mult.assoc)
  finally have "w * 2 ^ 1074 \<le> (2 ^ 53 - 1) * 2 ^ 971 * (2::real) ^ 1074"
    by (simp only: wm)
  then have "w \<le> (2 ^ 53 - 1) * 2 ^ 971"
    by (simp only: mult_le_cancel_right_pos zero_less_power zero_less_numeral)
  with av show ?thesis by simp
qed

lemma fl_ge_1:
  assumes "1 \<le> x" "fl x = Fin d"
  shows "1 \<le> d"
proof -
  from assms have x: "x \<noteq> 0" "0 < x" "\<bar>x\<bar> = x" by auto
  from fl_decompose [OF x(1)] obtain k m w where k: "k \<le> 2045"
    and up: "\<bar>x\<bar> * 2 ^ 1074 < 2 ^ (53 + k) \<or> k = 2045"
    and mlo: "k = 0 \<or> 2 ^ 52 \<le> m"
    and w: "w = real_of_int m * 2 ^ k / 2 ^ 1074"
    and flx: "fl x = (if 2 ^ 1024 \<le> w then (if 0 < x then PInf else NInf)
            else Fin (if 0 < x then w else - w))"
    by blast
  have big: "(2::real) ^ 1074 \<le> \<bar>x\<bar> * 2 ^ 1074" using assms x by simp
  have k1022: "1022 \<le> k"
  proof (cases "k = 2045")
    case False
    with up have "\<bar>x\<bar> * 2 ^ 1074 < 2 ^ (53 + k)" by simp
    with big have "(2::real) ^ 1074 < 2 ^ (53 + k)" by (rule le_less_trans)
    then have "1074 < 53 + k" by (simp only: power_strict_increasing_iff)
    then show ?thesis by simp
  qed simp
  then have "k \<noteq> 0" by simp
  with mlo have "2 ^ 52 \<le> m" by simp
  then have "real_of_int m \<ge> of_int (2 ^ 52)" by (simp only: of_int_le_iff)
  then have "(2::real) ^ 52 * 2 ^ k \<le> real_of_int m * 2 ^ k" by simp
  moreover have "(2::real) ^ 1074 \<le> 2 ^ (52 + k)"
    using k1022 by (intro power_increasing) simp_all
  ultimately have "(2::real) ^ 1074 \<le> real_of_int m * 2 ^ k" by (simp only: power_add)
  then have "1 * (2::real) ^ 1074 \<le> w * 2 ^ 1074" by (simp add: w)
  then have w1: "1 \<le> w"
    by (simp only: mult_le_cancel_right_pos zero_less_power zero_less_numeral)
  from assms(2) x(2) have "d = w" unfolding flx by (auto split: if_splits)
  with w1 show ?thesis by simp
qed

lemma fadd_fmul_zero: "fadd (fmul a b) (Fin 0) = fmul a b"
proof (cases a; cases b)
  fix x y assume ab: "a = Fin x" "b = Fin y"
  show ?thesis
  proof (cases "fl (x * y)")
    case (Fin z)
    then have "fl z = Fin z" using fl_idem [of "x * y" z] by (simp add: is_double_def)
    with Fin ab show ?thesis by simp
  qed (simp_all add: ab)
qed simp_all


subsection \<open>The differencer\<close>

lemma length_diff_from [simp]: "length (diff_from p xs) = length xs"
  by (induction xs arbitrary: p) auto

lemma nth_diff_from:
  "i < length xs \<Longrightarrow> diff_from p xs ! i = fsub (xs ! i) ((p # xs) ! i)"
proof (induction xs arbitrary: p i)
  case Nil
  then show ?case by simp
next
  case (Cons x xs)
  then show ?case by (cases i) auto
qed

lemma differencer_Nil [simp]: "differencer [] = []"
  by (simp add: differencer_def values_diff_def values_dropna_def)

lemma differencer_Cons: "differencer (x # r) = filter (\<lambda>v. \<not> isnan v) (diff_from x r)"
  by (simp add: differencer_def values_diff_def values_dropna_def)

lemma differencer_no_nan:
  assumes "xs \<noteq> []"
    and "\<forall>i. Suc i < length xs \<longrightarrow> \<not> isnan (fsub (xs ! Suc i) (xs ! i))"
  shows "length (differencer xs) = length xs - 1 \<and>
         (\<forall>i. Suc i < length xs \<longrightarrow> differencer xs ! i = fsub (xs ! Suc i) (xs ! i))"
proof -
  from assms(1) obtain x r where xs: "xs = x # r" by (cases xs) auto
  have nth: "diff_from x r ! i = fsub (xs ! Suc i) (xs ! i)" if "i < length r" for i
    using that by (simp add: nth_diff_from xs)
  have "\<forall>v \<in> set (diff_from x r). \<not> isnan v"
  proof
    fix v assume "v \<in> set (diff_from x r)"
    then obtain i where i: "i < length r" and v: "v = diff_from x r ! i"
      by (auto simp: in_set_conv_nth)
    with nth assms(2) show "\<not> isnan v" by (simp add: xs)
  qed
  then have "differencer xs = diff_from x r"
    by (simp add: xs differencer_Cons)
  with nth show ?thesis by (simp add: xs)
qed

lemma differencer_finite:
  assumes "xs \<noteq> []" "\<forall>v \<in> set xs. isfinite v"
  shows "length (differencer xs) = length xs - 1 \<and>
         (\<forall>i. Suc i < length xs \<longrightarrow> differencer xs ! i = fsub (xs ! Suc i) (xs ! i))"
proof (rule differencer_no_nan [OF assms(1)], intro allI impI)
  fix i assume "Suc i < length xs"
  then have "isfinite (xs ! Suc i)" "isfinite (xs ! i)"
    using assms(2) by (auto simp: all_set_conv_all_nth)
  then show "\<not> isnan (fsub (xs ! Suc i) (xs ! i))"
    by (rule fsub_finite_not_NaN)
qed

text \<open>
  Claim C1, as amended. \<open>dropna()\<close> removes every NaN, not only the leading one that
  \<open>diff()\<close> creates. For an input of length \<open>N \<ge> 1\<close> in which no difference
  \<open>input[i+1] - input[i]\<close> is NaN (so for every input of finite values, see
  \<open>differencer_finite\<close>), the differencer returns \<open>N - 1\<close> values and the \<open>i\<close>-th is
  \<open>input[i+1] - input[i]\<close>, in binary64 arithmetic. The second ADF test of Lesson 3 is
  given the differencer's output for the random walk (\<open>lesson3_df_diff\<close>).
\<close>

theorem C1_differencer:
  assumes "xs \<noteq> []"
    and "\<forall>i. Suc i < length xs \<longrightarrow> \<not> isnan (fsub (xs ! Suc i) (xs ! i))"
  shows "length (differencer xs) = length xs - 1 \<and>
         (\<forall>i. Suc i < length xs \<longrightarrow> differencer xs ! i = fsub (xs ! Suc i) (xs ! i))"
  using assms by (rule differencer_no_nan)

theorem C1_differencer_witness:
  "length (differencer [Fin 1, Fin 2, Fin 4]) = 2 \<and>
   differencer [Fin 1, Fin 2, Fin 4] ! 0 = Fin 1 \<and>
   differencer [Fin 1, Fin 2, Fin 4] ! 1 = Fin 2"
proof -
  let ?xs = "[Fin 1, Fin 2, Fin 4]"
  have h1: "?xs \<noteq> []" by simp
  have h2: "\<forall>i. Suc i < length ?xs \<longrightarrow> \<not> isnan (fsub (?xs ! Suc i) (?xs ! i))"
  proof (intro allI impI)
    fix i assume "Suc i < length ?xs"
    then have "i = 0 \<or> i = 1" by auto
    then show "\<not> isnan (fsub (?xs ! Suc i) (?xs ! i))" by auto
  qed
  from C1_differencer [OF h1 h2]
  have "length (differencer ?xs) = 2" and
    n: "\<And>i. Suc i < 3 \<Longrightarrow> differencer ?xs ! i = fsub (?xs ! Suc i) (?xs ! i)"
    by simp_all
  with n [of 0] n [of 1] show ?thesis by simp
qed

text \<open>
  As stated for every input the claim fails: a series with one missing observation,
  \<open>[1.0, NaN, 3.0]\<close>, has length 3 and its differenced series is empty, since both
  differences next to the NaN are NaN and are dropped.
\<close>

theorem C1_counterexample:
  "differencer [Fin 1, NaN, Fin 3] = [] \<and>
   length (differencer [Fin 1, NaN, Fin 3]) \<noteq> length [Fin 1, NaN, Fin 3] - 1"
  by (simp add: differencer_Cons fsub_def)

subsection \<open>Constant sequences and ramps\<close>

lemma filter_notnan_replicate_fl:
  "filter (\<lambda>v. \<not> isnan v) (replicate n (fl b)) = replicate n (fl b)"
  by (cases "fl b") auto

lemma diff_from_constant: "diff_from (Fin c) (replicate n (Fin c)) = replicate n (Fin 0)"
  by (induction n) auto

lemma diff_from_same:
  "y \<in> set (diff_from v (replicate n v)) \<Longrightarrow> \<not> isnan y \<Longrightarrow> y = Fin 0"
  by (induction n) (cases v; auto simp: fsub_def)+

lemma diff_from_ramp:
  "(\<forall>i<length xs. xs ! i = Fin (a + b * real (Suc i + k))) \<Longrightarrow>
   diff_from (Fin (a + b * real k)) xs = replicate (length xs) (fl b)"
proof (induction xs arbitrary: k)
  case Nil
  then show ?case by simp
next
  case (Cons x r)
  from Cons.prems have x: "x = Fin (a + b * real (Suc k))" by auto
  have "\<forall>i<length r. r ! i = Fin (a + b * real (Suc i + Suc k))"
    using Cons.prems by auto
  then have "diff_from (Fin (a + b * real (Suc k))) r = replicate (length r) (fl b)"
    by (rule Cons.IH)
  moreover have "a + b * real (Suc k) - (a + b * real k) = b"
    by (simp add: algebra_simps)
  ultimately show ?case by (simp add: x)
qed

text \<open>
  Claim C5, as amended. Differencing a constant sequence of a finite value gives zeros
  only, and whatever the constant is, the output holds nothing but zeros. Differencing
  a ramp \<open>input[i] = a + b * i\<close> gives a constant sequence, each element the binary64
  rounding \<open>fl b\<close> of the slope; it is \<open>b\<close> itself when \<open>b\<close> is a binary64 value.
\<close>

theorem C5_differencer_constant_ramp:
  "differencer (replicate n (Fin c)) = replicate (n - 1) (Fin 0) \<and>
   set (differencer (replicate m v)) \<subseteq> {Fin 0} \<and>
   ((\<forall>i<length xs. xs ! i = Fin (a + b * real i)) \<longrightarrow>
      differencer xs = replicate (length xs - 1) (fl b) \<and>
      (is_double b \<longrightarrow> differencer xs = replicate (length xs - 1) (Fin b)))"
proof (intro conjI impI)
  show "differencer (replicate n (Fin c)) = replicate (n - 1) (Fin 0)"
    by (cases n) (simp_all add: differencer_Cons diff_from_constant)
next
  show "set (differencer (replicate m v)) \<subseteq> {Fin 0}"
    by (cases m) (auto simp: differencer_Cons diff_from_same)
next
  assume ramp: "\<forall>i<length xs. xs ! i = Fin (a + b * real i)"
  show d: "differencer xs = replicate (length xs - 1) (fl b)"
  proof (cases xs)
    case Nil
    then show ?thesis by simp
  next
    case (Cons x r)
    from ramp Cons have x: "x = Fin (a + b * real 0)" by auto
    have "\<forall>i<length r. r ! i = Fin (a + b * real (Suc i + 0))"
      using ramp Cons by auto
    then have "diff_from (Fin (a + b * real 0)) r = replicate (length r) (fl b)"
      by (rule diff_from_ramp)
    then show ?thesis
      by (simp add: Cons x differencer_Cons filter_notnan_replicate_fl)
  qed
  assume "is_double b"
  with d show "differencer xs = replicate (length xs - 1) (Fin b)"
    by (simp add: is_double_def)
qed

theorem C5_differencer_constant_ramp_witness:
  "differencer (replicate 3 (Fin 7)) = replicate 2 (Fin 0) \<and>
   differencer [Fin 1, Fin 4, Fin 7] = replicate 2 (Fin 3)"
proof -
  let ?xs = "[Fin 1, Fin 4, Fin 7]"
  have r: "\<forall>i<length ?xs. ?xs ! i = Fin (1 + 3 * real i)"
  proof (intro allI impI)
    fix i assume "i < length ?xs"
    then have "i = 0 \<or> i = 1 \<or> i = 2" by auto
    then show "?xs ! i = Fin (1 + 3 * real i)" by auto
  qed
  have b: "is_double 3" by (simp add: is_double_def)
  from C5_differencer_constant_ramp [of 3 7 0 NaN ?xs 1 3] r b show ?thesis
    by (simp add: eval_nat_numeral)
qed



text \<open>
  The slope of a ramp of binary64 values need not be a binary64 value. With
  \<open>a = - 2 ^ 53\<close> and \<open>b = 2 ^ 53 + 1\<close> the ramp is \<open>- 2 ^ 53, 1, 2 ^ 53 + 2\<close>, all three
  binary64 values; both differences are \<open>2 ^ 53 + 1\<close> exactly and round to \<open>2 ^ 53\<close>,
  which is not \<open>b\<close>.
\<close>

lemma fl_2p53_plus_1: "fl 9007199254740993 = Fin 9007199254740992"
  by (simp add: fl_eval [where k = 1075] rne_def Let_def)

lemma is_double_2p53: "is_double 9007199254740992"
  unfolding is_double_def by (simp add: fl_eval [where k = 1075] rne_def Let_def)

lemma is_double_neg_2p53: "is_double (- 9007199254740992)"
  unfolding is_double_def by (simp add: fl_eval [where k = 1075] rne_def Let_def)

lemma is_double_2p53_plus_2: "is_double 9007199254740994"
  unfolding is_double_def by (simp add: fl_eval [where k = 1075] rne_def Let_def)

theorem C5_counterexample:
  "is_double (- 9007199254740992) \<and> is_double 1 \<and> is_double 9007199254740994 \<and>
   [Fin (- 9007199254740992), Fin 1, Fin 9007199254740994] =
     [Fin (- 9007199254740992 + 9007199254740993 * 0),
      Fin (- 9007199254740992 + 9007199254740993 * 1),
      Fin (- 9007199254740992 + 9007199254740993 * 2)] \<and>
   differencer [Fin (- 9007199254740992), Fin 1, Fin 9007199254740994] =
     [Fin 9007199254740992, Fin 9007199254740992] \<and>
   differencer [Fin (- 9007199254740992), Fin 1, Fin 9007199254740994] \<noteq>
     [Fin 9007199254740993, Fin 9007199254740993]"
  by (simp add: differencer_Cons fl_2p53_plus_1 is_double_neg_2p53 is_double_2p53_plus_2
      is_double_1)

text \<open>
  A ramp computed in binary64 is not an exact ramp, and its differences need not be
  constant: for \<open>0.1 * i\<close>, \<open>i = 0, 1, 2, 3\<close>, the values are \<open>0\<close>, \<open>0.1\<close>, \<open>0.2\<close>,
  \<open>0.30000000000000004\<close> and the differences \<open>0.1\<close>, \<open>0.1\<close>, \<open>0.10000000000000003\<close>.
\<close>

lemma computed_ramp_values:
  "map (\<lambda>i. fmul (fl (1 / 10)) (float_of_int i)) [0, 1, 2, 3] =
     [Fin 0, Fin (3602879701896397 / 2 ^ 55), Fin (3602879701896397 / 2 ^ 54),
      Fin (5404319552844596 / 2 ^ 54)]"
proof -
  have t: "fl (1 / 10) = Fin (3602879701896397 / 2 ^ 55)"
    by (simp add: fl_eval [where k = 1018] rne_def Let_def)
  have m1: "fl (3602879701896397 / 2 ^ 55 * 1) = Fin (3602879701896397 / 2 ^ 55)"
    by (simp add: fl_eval [where k = 1018] rne_def Let_def)
  have m2: "fl (3602879701896397 / 2 ^ 55 * 2) = Fin (3602879701896397 / 2 ^ 54)"
    by (simp add: fl_eval [where k = 1019] rne_def Let_def)
  have m3: "fl (3602879701896397 / 2 ^ 55 * 3) = Fin (5404319552844596 / 2 ^ 54)"
    by (simp add: fl_eval [where k = 1020] rne_def Let_def)
  show ?thesis
    unfolding t list.map float_of_int_def of_int_0 of_int_1 of_int_numeral fl_0 fl_1 fl_2 fl_3
      fmul.simps m1 m2 m3
    by simp
qed

lemma computed_ramp_differences:
  "differencer [Fin 0, Fin (3602879701896397 / 2 ^ 55), Fin (3602879701896397 / 2 ^ 54),
      Fin (5404319552844596 / 2 ^ 54)] =
     [Fin (7205759403792794 / 2 ^ 56), Fin (7205759403792794 / 2 ^ 56),
      Fin (7205759403792796 / 2 ^ 56)]"
proof -
  have d1: "fsub (Fin (3602879701896397 / 2 ^ 55)) (Fin 0) = Fin (7205759403792794 / 2 ^ 56)"
    by (simp add: fl_eval [where k = 1018] rne_def Let_def)
  have d2: "fsub (Fin (3602879701896397 / 2 ^ 54)) (Fin (3602879701896397 / 2 ^ 55)) =
      Fin (7205759403792794 / 2 ^ 56)"
    by (simp add: fl_eval [where k = 1018] rne_def Let_def)
  have d3: "fsub (Fin (5404319552844596 / 2 ^ 54)) (Fin (3602879701896397 / 2 ^ 54)) =
      Fin (7205759403792796 / 2 ^ 56)"
    by (simp add: fl_eval [where k = 1018] rne_def Let_def)
  show ?thesis
    unfolding differencer_Cons diff_from.simps d1 d2 d3 by simp
qed

subsection \<open>Differencing a cumulative sum\<close>

lemma diff_cumsum_exact:
  "exact_sums a ss \<Longrightarrow> diff_from (Fin a) (cumsum_from (Fin a) (map Fin ss)) = map Fin ss"
proof (induction ss arbitrary: a)
  case Nil
  then show ?case by simp
next
  case (Cons s ss)
  then have s: "fl s = Fin s" and sum: "fl (a + s) = Fin (a + s)"
    and rest: "exact_sums (a + s) ss"
    by (simp_all add: is_double_def)
  from rest have "diff_from (Fin (a + s)) (cumsum_from (Fin (a + s)) (map Fin ss)) = map Fin ss"
    by (rule Cons.IH)
  then show ?case by (simp add: s sum)
qed

text \<open>
  Claim C10, as amended. \<open>diff(cumsum(steps))\<close> with the leading NaN dropped is
  \<open>steps[1..N-1]\<close> when the steps are binary64 values and no running sum of
  \<open>np.cumsum\<close> was rounded. (When a sum is rounded the difference need not be the step,
  as the two examples below show.)
\<close>

theorem C10_diff_cumsum:
  "exact_sums s0 ss \<Longrightarrow> differencer (np_cumsum (map Fin (s0 # ss))) = map Fin ss"
  by (simp add: np_cumsum_def differencer_Cons diff_cumsum_exact)

theorem C10_diff_cumsum_witness:
  "exact_sums 1 [1, 1] \<and> differencer (np_cumsum (map Fin [1, 1, 1])) = map Fin [1, 1]"
proof -
  have e: "exact_sums 1 [1, 1]" by (simp add: is_double_def)
  from e C10_diff_cumsum [OF e] show ?thesis by simp
qed

text \<open>
  With the steps \<open>0.1\<close> and \<open>0.2\<close> the running sum \<open>0.1 + 0.2\<close> is rounded up to
  \<open>0.30000000000000004\<close>, and the difference \<open>0.30000000000000004 - 0.1\<close> is
  \<open>0.20000000000000004\<close>, one unit in the last place above the step \<open>0.2\<close>.
\<close>

lemma fl_tenth: "fl (1 / 10) = Fin (3602879701896397 / 2 ^ 55)"
  by (simp add: fl_eval [where k = 1018] rne_def Let_def)

lemma fl_fifth: "fl (1 / 5) = Fin (3602879701896397 / 2 ^ 54)"
  by (simp add: fl_eval [where k = 1019] rne_def Let_def)

lemma fadd_tenth_fifth:
  "fadd (Fin (3602879701896397 / 2 ^ 55)) (Fin (3602879701896397 / 2 ^ 54)) =
   Fin (5404319552844596 / 2 ^ 54)"
  by (simp add: fl_eval [where k = 1020] rne_def Let_def)

lemma fsub_sum_tenth:
  "fsub (Fin (5404319552844596 / 2 ^ 54)) (Fin (3602879701896397 / 2 ^ 55)) =
   Fin (7205759403792795 / 2 ^ 55)"
  by (simp add: fl_eval [where k = 1019] rne_def Let_def)

theorem C10_counterexample:
  "differencer (np_cumsum [fl (1 / 10), fl (1 / 5)]) = [Fin (7205759403792795 / 2 ^ 55)] \<and>
   tl [fl (1 / 10), fl (1 / 5)] = [Fin (7205759403792794 / 2 ^ 55)] \<and>
   differencer (np_cumsum [fl (1 / 10), fl (1 / 5)]) \<noteq> tl [fl (1 / 10), fl (1 / 5)]"
proof -
  have d: "differencer (np_cumsum [fl (1 / 10), fl (1 / 5)]) = [Fin (7205759403792795 / 2 ^ 55)]"
    unfolding fl_tenth fl_fifth np_cumsum_def differencer_Cons list.case cumsum_from.simps
      diff_from.simps fadd_tenth_fifth fsub_sum_tenth
    by simp
  have t: "tl [fl (1 / 10), fl (1 / 5)] = [Fin (7205759403792794 / 2 ^ 55)]"
    unfolding fl_fifth by simp
  show ?thesis unfolding d t by simp
qed

text \<open>A step below the spacing of the running sum is lost altogether.\<close>

lemma diff_cumsum_large_step:
  "differencer (np_cumsum [Fin 9007199254740992, Fin 1]) = [Fin 0]"
  by (simp add: np_cumsum_def differencer_Cons fl_2p53_plus_1)

subsection \<open>The library calls\<close>

lemma np_random_seed_ok:
  "0 \<le> seed \<Longrightarrow> seed < 2 ^ 32 \<Longrightarrow> np_random_seed lib seed = Inr (init_by_seed lib (nat seed))"
  by (simp add: np_random_seed_def)

lemma np_random_seed_fails_iff:
  "(\<exists>e. np_random_seed lib seed = Inl e) \<longleftrightarrow> seed < 0 \<or> 2 ^ 32 \<le> seed"
  by (simp add: np_random_seed_def)

lemma flt_pos_not_signbit: "flt (Fin 0) scale \<Longrightarrow> \<not> signbit scale"
  by (cases scale) auto

lemma draws_length: "draws f n g = (zs, g') \<Longrightarrow> length zs = n"
  by (induction n arbitrary: g zs g') (auto split: prod.splits)

lemma np_random_normal_ok:
  assumes "\<not> signbit scale" "0 \<le> n"
  obtains zs g' where "np_random_normal lib loc scale n g = Inr (zs, g')" "length zs = nat n"
proof -
  obtain ds g' where d: "draws (legacy_gauss lib) (nat n) g = (ds, g')"
    by (cases "draws (legacy_gauss lib) (nat n) g")
  then have "length ds = nat n" by (rule draws_length)
  with d assms that show thesis
    by (simp add: np_random_normal_def)
qed

lemma np_random_normal_fails_iff:
  "(\<exists>e. np_random_normal lib loc scale n g = Inl e) \<longleftrightarrow> signbit scale \<or> n < 0"
  by (auto simp: np_random_normal_def split: prod.splits)

lemma np_random_normal_scale: "signbit scale \<Longrightarrow> np_random_normal lib loc scale n g = Inl NegativeScale"
  by (simp add: np_random_normal_def)

lemma np_random_normal_negative:
  "\<not> signbit scale \<Longrightarrow> n < 0 \<Longrightarrow> np_random_normal lib loc scale n g = Inl NegativeDimensions"
  by (simp add: np_random_normal_def)

lemma np_linspace_ok:
  assumes "0 \<le> num"
  obtains ys where "np_linspace start stop num = Inr ys" "length ys = nat num"
  using assms that by (simp add: np_linspace_def Let_def)

lemma np_linspace_negative: "num < 0 \<Longrightarrow> np_linspace start stop num = Inl NegativeSamples"
  by (simp add: np_linspace_def)

lemma np_linspace_last:
  assumes "np_linspace start stop num = Inr ys" "1 < num"
  shows "last ys = stop" "ys ! (nat num - 1) = stop"
proof -
  from assms obtain y2 where ys: "ys = y2[nat (num - 1) := stop]" and l: "length y2 = nat num"
    by (auto simp: np_linspace_def Let_def split: if_splits)
  from assms(2) have n: "nat (num - 1) = nat num - 1" "nat num - 1 < length y2" "y2 \<noteq> []"
    using l by auto
  show "ys ! (nat num - 1) = stop" using n by (simp add: ys)
  then show "last ys = stop"
    using n l by (simp add: ys last_conv_nth)
qed

lemma pd_date_range_ok:
  assumes "- Timestamp_max lib \<le> start" "start \<le> Timestamp_max lib" "0 \<le> periods"
    and "start + (periods - 1) * day_ns \<le> Timestamp_max lib"
  shows "pd_date_range lib start periods =
     Inr (map (\<lambda>i. start + int i * day_ns) [0..<nat periods])"
  using assms by (simp add: pd_date_range_def)

lemma pd_date_range_fails_iff:
  "(\<exists>e. pd_date_range lib start periods = Inl e) \<longleftrightarrow>
     start < - Timestamp_max lib \<or> Timestamp_max lib < start \<or> periods < 0 \<or>
     Timestamp_max lib < start + (periods - 1) * day_ns"
  by (simp add: pd_date_range_def)

lemma pd_date_range_negative:
  "- Timestamp_max lib \<le> start \<Longrightarrow> start \<le> Timestamp_max lib \<Longrightarrow> periods < 0 \<Longrightarrow>
   pd_date_range lib start periods = Inl NegativePeriods"
  by (simp add: pd_date_range_def)

text \<open>
  At nanosecond resolution a range of days from 2020-01-01 holds 88490 days at most: the
  last of them is 2262-04-11, the day of \<open>pd.Timestamp.max\<close>.
\<close>

lemma pd_date_range_2020_ns:
  assumes "Timestamp_max lib = 2 ^ 63 - 1"
  shows "(\<exists>e. pd_date_range lib ts_2020_01_01 periods = Inl e) \<longleftrightarrow> periods < 0 \<or> 88490 < periods"
proof -
  have e: "(periods - 1) * 86400000000000 = periods * 86400000000000 - 86400000000000"
    by (simp add: algebra_simps)
  have t: "ts_2020_01_01 = 1577836800000000000" "day_ns = 86400000000000"
    "Timestamp_max lib = 9223372036854775807"
    by (simp_all add: ts_2020_01_01_def day_ns_def assms)
  show ?thesis
    unfolding pd_date_range_fails_iff t e by linarith
qed

lemma np_add_same_length:
  "length a = length b \<Longrightarrow> np_add a b = Inr (map2 fadd a b)"
  by (simp add: np_add_def)

subsection \<open>The shape of \<open>np.linspace\<close>\<close>

lemma np_linspace_nth:
  assumes "np_linspace start stop num = Inr ys" "i < nat num"
  shows "ys ! i =
     (if 1 < num \<and> i = nat (num - 1) then stop
      else fadd
        (if 0 < num - 1 then
           (let step = fdiv (fsub stop start) (float_of_int (num - 1)) in
            if step = Fin 0
            then fmul (fdiv (float_of_int (int i)) (float_of_int (num - 1))) (fsub stop start)
            else fmul (float_of_int (int i)) step)
         else fmul (float_of_int (int i)) (fsub stop start))
        start)"
  using assms
  by (auto simp: np_linspace_def Let_def nth_list_update split: if_splits)

text \<open>A grid from \<open>0\<close> to a finite binary64 value starts at \<open>0\<close>.\<close>

lemma np_linspace_first:
  assumes "np_linspace (Fin 0) (Fin m) num = Inr ys" "0 < num" "is_double m"
  shows "ys ! 0 = Fin 0"
proof -
  have delta: "fl m = Fin m"
    using assms(3) by (simp add: is_double_def)
  have zero: "float_of_int 0 = Fin 0" by (simp add: float_of_int_def)
  have i: "0 < nat num" using assms(2) by simp
  show ?thesis
  proof (cases "0 < num - 1")
    case False
    with assms(2) have "num = 1" by simp
    with np_linspace_nth [OF assms(1) i] show ?thesis
      by (simp add: delta zero)
  next
    case True
    then have ne: "\<not> (1 < num \<and> 0 = nat (num - 1))" by simp
    have ge1: "1 \<le> real_of_int (num - 1)" using True by simp
    have step_cases: "fmul (fdiv (Fin 0) dd) (Fin m) = Fin 0 \<and>
        (fdiv (Fin m) dd \<noteq> Fin 0 \<longrightarrow> fmul (Fin 0) (fdiv (Fin m) dd) = Fin 0)"
      if dd: "dd = float_of_int (num - 1)" for dd
    proof (cases dd)
      case (Fin d)
      with dd have fd: "fl (real_of_int (num - 1)) = Fin d" by (simp add: float_of_int_def)
      from fl_ge_1 [OF ge1 fd] have d1: "1 \<le> d" .
      then have d0: "d \<noteq> 0" by simp
      have "1 * \<bar>m\<bar> \<le> d * \<bar>m\<bar>" using d1 by (intro mult_right_mono) simp_all
      then have "\<bar>m / d\<bar> \<le> \<bar>m\<bar>" using d1 by (simp add: field_simps)
      also have "\<dots> \<le> (2 ^ 53 - 1) * 2 ^ 971" using assms(3) by (rule is_double_bound)
      finally have "isfinite (fl (m / d))" by (rule fl_finite)
      then obtain s where s: "fl (m / d) = Fin s" by (cases "fl (m / d)") simp_all
      show ?thesis by (simp add: Fin d0 s)
    next
      case PInf
      then show ?thesis by simp
    next
      case NInf
      then show ?thesis by simp
    next
      case NaN
      with dd have "fl (real_of_int (num - 1)) = NaN" by (simp only: float_of_int_def)
      then show ?thesis by (simp only: fl_not_NaN)
    qed
    from np_linspace_nth [OF assms(1) i] ne True
    have "ys ! 0 = fadd
        (if fdiv (Fin m) (float_of_int (num - 1)) = Fin 0
         then fmul (fdiv (Fin 0) (float_of_int (num - 1))) (Fin m)
         else fmul (Fin 0) (fdiv (Fin m) (float_of_int (num - 1))))
        (Fin 0)"
      by (simp add: delta zero Let_def)
    with step_cases [OF refl] show ?thesis
      by (simp split: if_splits)
  qed
qed

lemma fl_99: "fl 99 = Fin 99"
  by (simp add: fl_eval [where k = 1028] rne_def Let_def)

lemma fl_10: "fl 10 = Fin 10"
  by (simp add: fl_eval [where k = 1025] rne_def Let_def)

lemma fl_10_99: "fl (10 / 99) = Fin (7278544852315953 / 2 ^ 56)"
  by (simp add: fl_eval [where k = 1018] rne_def Let_def)

text \<open>
  The trend of the introduction notebook, \<open>np.linspace(0, 10, 100)\<close>: it starts at \<open>0\<close>,
  ends at \<open>10\<close>, and in between the \<open>i\<close>-th value is \<open>i\<close> times the rounded step
  \<open>10 / 99\<close>.
\<close>

lemma intro_trend:
  assumes "np_linspace (Fin 0) (Fin 10) 100 = Inr trend"
  shows "length trend = 100" "trend ! 0 = Fin 0" "trend ! 99 = Fin 10"
    and "i < 99 \<Longrightarrow> trend ! i = fmul (float_of_int (int i)) (Fin (7278544852315953 / 2 ^ 56))"
proof -
  show "length trend = 100"
    using assms by (auto simp: np_linspace_def Let_def)
  have step: "fdiv (fsub (Fin 10) (Fin 0)) (float_of_int (100 - 1)) = Fin (7278544852315953 / 2 ^ 56)"
    by (simp add: float_of_int_def fl_99 fl_10 fl_10_99)
  have nth: "trend ! i = fadd (fmul (float_of_int (int i)) (Fin (7278544852315953 / 2 ^ 56))) (Fin 0)"
    if "i < 99" for i
    using np_linspace_nth [OF assms, of i] that unfolding step Let_def by simp
  show "trend ! 99 = Fin 10"
    using np_linspace_nth [OF assms, of 99] by simp
  show "trend ! 0 = Fin 0"
    using nth [of 0] by (simp add: float_of_int_def)
  show "i < 99 \<Longrightarrow> trend ! i = fmul (float_of_int (int i)) (Fin (7278544852315953 / 2 ^ 56))"
    using nth [of i] by (simp only: fadd_fmul_zero)
qed

text \<open>A grid of one point from \<open>0\<close> is that point \<open>0\<close>: it does not reach its end.\<close>

lemma np_linspace_one:
  assumes "is_double m"
  shows "np_linspace (Fin 0) (Fin m) 1 = Inr [Fin 0]"
proof -
  obtain ys where ys: "np_linspace (Fin 0) (Fin m) 1 = Inr ys" and l: "length ys = nat 1"
    by (rule np_linspace_ok [of 1]) simp
  from np_linspace_first [OF ys _ assms] have "ys ! 0 = Fin 0" by simp
  with l have "ys = [Fin 0]" by (cases ys) simp_all
  with ys show ?thesis by simp
qed

subsection \<open>The synthetic series\<close>

text \<open>
  The cell succeeds when every call in it does: the seed is in range, the start and the
  last day are timestamps, the count is not negative and the scale has no sign.
\<close>

lemma synthetic_series_ok:
  assumes "0 \<le> seed_value P" "seed_value P < 2 ^ 32"
    and "- Timestamp_max lib \<le> start_date P" "start_date P \<le> Timestamp_max lib"
    and "0 \<le> count P" "start_date P + (count P - 1) * day_ns \<le> Timestamp_max lib"
    and "\<not> signbit (noise_scale P)"
  shows "\<exists>trend grid noise data g'.
      synthetic_series lib P g =
        Inr (\<lparr>index = map (\<lambda>i. start_date P + int i * day_ns) [0..<nat (count P)],
              columns = [(''Value'', data)]\<rparr>, g') \<and>
      np_linspace (Fin 0) (trend_max P) (count P) = Inr trend \<and>
      np_linspace (Fin 0) (fmul (half_cycles P) np_pi) (count P) = Inr grid \<and>
      np_random_normal lib (noise_loc P) (noise_scale P) (count P)
        (init_by_seed lib (nat (seed_value P))) = Inr (noise, g') \<and>
      length trend = nat (count P) \<and> length grid = nat (count P) \<and>
      length noise = nat (count P) \<and> length data = nat (count P) \<and>
      (\<forall>i < nat (count P).
         data ! i =
           fadd (fadd (trend ! i) (fmul (amplitude P) (np_sin lib (grid ! i)))) (noise ! i))"
proof -
  have seed: "np_random_seed lib (seed_value P) = Inr (init_by_seed lib (nat (seed_value P)))"
    using assms(1,2) by (rule np_random_seed_ok)
  have dates: "pd_date_range lib (start_date P) (count P) =
      Inr (map (\<lambda>i. start_date P + int i * day_ns) [0..<nat (count P)])"
    using assms(3,4,5,6) by (rule pd_date_range_ok)
  obtain trend where t: "np_linspace (Fin 0) (trend_max P) (count P) = Inr trend"
    "length trend = nat (count P)"
    using assms(5) by (rule np_linspace_ok)
  obtain grid where gr: "np_linspace (Fin 0) (fmul (half_cycles P) np_pi) (count P) = Inr grid"
    "length grid = nat (count P)"
    using assms(5) by (rule np_linspace_ok)
  obtain noise g' where n: "np_random_normal lib (noise_loc P) (noise_scale P) (count P)
      (init_by_seed lib (nat (seed_value P))) = Inr (noise, g')" "length noise = nat (count P)"
    using assms(7,5) by (rule np_random_normal_ok)
  define seasonality where "seasonality = map (\<lambda>x. fmul (amplitude P) (np_sin lib x)) grid"
  define ts where "ts = map2 fadd trend seasonality"
  define data where "data = map2 fadd ts noise"
  have ls: "length seasonality = nat (count P)" by (simp add: seasonality_def gr)
  have lts: "length ts = nat (count P)" by (simp add: ts_def t ls)
  have ld: "length data = nat (count P)" by (simp add: data_def lts n)
  have a1: "np_add trend seasonality = Inr ts"
    by (simp add: np_add_same_length t ls ts_def)
  have a2: "np_add ts noise = Inr data"
    by (simp add: np_add_same_length lts n data_def)
  have run: "synthetic_series lib P g =
      Inr (\<lparr>index = map (\<lambda>i. start_date P + int i * day_ns) [0..<nat (count P)],
            columns = [(''Value'', data)]\<rparr>, g')"
    using seed dates t(1) gr(1) n(1) a1 a2 ld
    by (simp add: synthetic_series_def pd_DataFrame_def seasonality_def [symmetric])
  have nth: "data ! i =
      fadd (fadd (trend ! i) (fmul (amplitude P) (np_sin lib (grid ! i)))) (noise ! i)"
    if "i < nat (count P)" for i
    using that by (simp add: data_def ts_def seasonality_def t gr n)
  from run t gr n ld nth show ?thesis by blast
qed

text \<open>In the model these are all the ways in which the cell fails.\<close>

lemma synthetic_series_fails_iff:
  "(\<exists>e. synthetic_series lib P g = Inl e) \<longleftrightarrow>
     seed_value P < 0 \<or> 2 ^ 32 \<le> seed_value P \<or>
     start_date P < - Timestamp_max lib \<or> Timestamp_max lib < start_date P \<or>
     count P < 0 \<or> Timestamp_max lib < start_date P + (count P - 1) * day_ns \<or>
     signbit (noise_scale P)"
proof (cases "seed_value P < 0 \<or> 2 ^ 32 \<le> seed_value P")
  case True
  then have "np_random_seed lib (seed_value P) = Inl SeedOutOfRange"
    by (simp add: np_random_seed_def)
  then have "synthetic_series lib P g = Inl SeedOutOfRange"
    by (simp add: synthetic_series_def)
  with True show ?thesis by auto
next
  case seed: False
  then have s: "np_random_seed lib (seed_value P) = Inr (init_by_seed lib (nat (seed_value P)))"
    by (simp add: np_random_seed_def)
  show ?thesis
  proof (cases "\<exists>e. pd_date_range lib (start_date P) (count P) = Inl e")
    case True
    then obtain e where e: "pd_date_range lib (start_date P) (count P) = Inl e" ..
    with s have "synthetic_series lib P g = Inl e"
      by (simp add: synthetic_series_def)
    with True show ?thesis unfolding pd_date_range_fails_iff by auto
  next
    case dates: False
    then have d: "- Timestamp_max lib \<le> start_date P" "start_date P \<le> Timestamp_max lib"
      "0 \<le> count P" "start_date P + (count P - 1) * day_ns \<le> Timestamp_max lib"
      unfolding pd_date_range_fails_iff by auto
    show ?thesis
    proof (cases "signbit (noise_scale P)")
      case True
      obtain trend where t: "np_linspace (Fin 0) (trend_max P) (count P) = Inr trend"
        using d(3) by (rule np_linspace_ok)
      obtain grid where gr: "np_linspace (Fin 0) (fmul (half_cycles P) np_pi) (count P) = Inr grid"
        using d(3) by (rule np_linspace_ok)
      have "synthetic_series lib P g = Inl NegativeScale"
        using s d t gr True
        by (simp add: synthetic_series_def pd_date_range_ok np_random_normal_scale)
      with True show ?thesis by auto
    next
      case False
      from seed have "0 \<le> seed_value P" "seed_value P < 2 ^ 32" by auto
      from synthetic_series_ok [OF this d False, of g]
      have "\<not> (\<exists>e. synthetic_series lib P g = Inl e)" by auto
      with seed d False show ?thesis by auto
    qed
  qed
qed

lemma fmul_3_pi: "fmul (Fin 3) np_pi = Fin (2652839157010665 / 281474976710656)"
  unfolding np_pi_def by (simp add: fl_eval [where k = 1025] rne_def Let_def)

lemma is_double_3_pi: "is_double (2652839157010665 / 281474976710656)"
proof -
  have "fl (3 * (884279719003555 / 281474976710656)) = Fin (2652839157010665 / 281474976710656)"
    using fmul_3_pi by (simp add: np_pi_def)
  then show ?thesis by (rule fl_idem)
qed

lemma is_double_10: "is_double 10"
  by (simp add: is_double_def fl_10)

text \<open>
  Claim C4, as amended. Let the seed lie in \<open>0 .. 2 ^ 32 - 1\<close>, the noise scale be
  positive, the configured maximum a finite binary64 value, and the start and the last
  of the \<open>N\<close> days timestamps. Then for every count \<open>N > 0\<close> the cell succeeds and builds
  a frame of \<open>N\<close> dates and \<open>N\<close> values. The dates are the \<open>N\<close> consecutive days from the
  start date. The \<open>i\<close>-th value is \<open>(trend[i] + seasonality[i]) + noise[i]\<close>, where \<open>trend\<close>
  is \<open>np.linspace\<close> from \<open>0\<close> to the configured maximum, which starts at \<open>0\<close> and ends at the
  maximum when there are two points or more, and is the one point \<open>0\<close> when \<open>N = 1\<close>;
  \<open>seasonality[i]\<close> is the amplitude times the sine of the \<open>i\<close>-th point of \<open>np.linspace\<close>
  from \<open>0\<close> to the configured multiple of pi; and \<open>noise\<close> is the \<open>N\<close> normal draws of the
  generator seeded with the seed. \<open>np_linspace_nth\<close> gives every point of the two grids.
\<close>

theorem C4_synthetic_series:
  assumes "0 < count P"
    and "0 \<le> seed_value P" "seed_value P < 2 ^ 32"
    and "- Timestamp_max lib \<le> start_date P" "start_date P \<le> Timestamp_max lib"
    and "start_date P + (count P - 1) * day_ns \<le> Timestamp_max lib"
    and "flt (Fin 0) (noise_scale P)"
    and "trend_max P = Fin m" "is_double m"
  shows "\<exists>dates trend grid noise data g'.
      synthetic_series lib P g = Inr (\<lparr>index = dates, columns = [(''Value'', data)]\<rparr>, g') \<and>
      length data = nat (count P) \<and> length dates = nat (count P) \<and>
      np_linspace (Fin 0) (trend_max P) (count P) = Inr trend \<and>
      np_linspace (Fin 0) (fmul (half_cycles P) np_pi) (count P) = Inr grid \<and>
      np_random_normal lib (noise_loc P) (noise_scale P) (count P)
        (init_by_seed lib (nat (seed_value P))) = Inr (noise, g') \<and>
      (\<forall>i < nat (count P).
         data ! i =
           fadd (fadd (trend ! i) (fmul (amplitude P) (np_sin lib (grid ! i)))) (noise ! i) \<and>
         dates ! i = start_date P + int i * day_ns) \<and>
      trend ! 0 = Fin 0 \<and>
      (count P = 1 \<longrightarrow> trend = [Fin 0]) \<and>
      (1 < count P \<longrightarrow> last trend = trend_max P)"
proof -
  from assms(1) have c0: "0 \<le> count P" by simp
  from assms(7) have sc: "\<not> signbit (noise_scale P)" by (rule flt_pos_not_signbit)
  from synthetic_series_ok [OF assms(2,3,4,5) c0 assms(6) sc, of g]
  obtain trend grid noise data g' where
    run: "synthetic_series lib P g =
        Inr (\<lparr>index = map (\<lambda>i. start_date P + int i * day_ns) [0..<nat (count P)],
              columns = [(''Value'', data)]\<rparr>, g')"
    and t: "np_linspace (Fin 0) (trend_max P) (count P) = Inr trend"
    and gr: "np_linspace (Fin 0) (fmul (half_cycles P) np_pi) (count P) = Inr grid"
    and n: "np_random_normal lib (noise_loc P) (noise_scale P) (count P)
        (init_by_seed lib (nat (seed_value P))) = Inr (noise, g')"
    and ld: "length data = nat (count P)"
    and nth: "\<forall>i < nat (count P).
         data ! i =
           fadd (fadd (trend ! i) (fmul (amplitude P) (np_sin lib (grid ! i)))) (noise ! i)"
    by blast
  have l: "1 < count P \<longrightarrow> last trend = trend_max P"
    using np_linspace_last(1) [OF t] by simp
  have f: "trend ! 0 = Fin 0"
    using np_linspace_first [of m "count P" trend] t assms(1,8,9) by simp
  have o: "count P = 1 \<longrightarrow> trend = [Fin 0]"
    using np_linspace_one [OF assms(9)] t assms(8) by auto
  show ?thesis
    apply (rule exI [where x = "map (\<lambda>i. start_date P + int i * day_ns) [0..<nat (count P)]"])
    apply (rule exI [where x = trend], rule exI [where x = grid], rule exI [where x = noise])
    apply (rule exI [where x = data], rule exI [where x = g'])
    using run t gr n ld nth l f o by simp
qed

lemma intro_params_valid:
  "0 \<le> seed_value intro_params" "seed_value intro_params < 2 ^ 32"
  "- Timestamp_max counter_lib \<le> start_date intro_params"
  "start_date intro_params \<le> Timestamp_max counter_lib"
  "start_date intro_params + (count intro_params - 1) * day_ns \<le> Timestamp_max counter_lib"
  "flt (Fin 0) (noise_scale intro_params)"
  "trend_max intro_params = Fin 10"
  by (simp_all add: intro_params_def counter_lib_def ts_2020_01_01_def day_ns_def)

theorem C4_synthetic_series_witness:
  "0 < count intro_params \<and>
   (\<exists>dates trend data g'.
      synthetic_series counter_lib intro_params 7 =
        Inr (\<lparr>index = dates, columns = [(''Value'', data)]\<rparr>, g') \<and>
      length data = 100 \<and> length dates = 100 \<and> dates ! 1 = ts_2020_01_01 + day_ns \<and>
      np_linspace (Fin 0) (Fin 10) 100 = Inr trend \<and> trend ! 0 = Fin 0 \<and> last trend = Fin 10)"
proof -
  have h: "0 < count intro_params" by (simp add: intro_params_def)
  from C4_synthetic_series [OF h intro_params_valid is_double_10, of 7]
  obtain dates trend data g' where
    "synthetic_series counter_lib intro_params 7 =
       Inr (\<lparr>index = dates, columns = [(''Value'', data)]\<rparr>, g')"
    "length data = nat (count intro_params)" "length dates = nat (count intro_params)"
    "\<forall>i < nat (count intro_params). dates ! i = start_date intro_params + int i * day_ns"
    "np_linspace (Fin 0) (trend_max intro_params) (count intro_params) = Inr trend"
    "trend ! 0 = Fin 0" "1 < count intro_params \<longrightarrow> last trend = trend_max intro_params"
    by blast
  then show ?thesis using h by (auto simp: intro_params_def)
qed

text \<open>
  As stated for every count \<open>N > 0\<close> the claim fails at \<open>N = 1\<close>: the cell of the notebook
  with its three \<open>100\<close>s replaced by \<open>1\<close> succeeds, and its trend
  \<open>np.linspace(0, 10, 1)\<close> is the one point \<open>0\<close>; it does not run to the maximum \<open>10\<close>.
\<close>

theorem C4_counterexample:
  "0 < count (intro_params\<lparr>count := 1\<rparr>) \<and>
   synthetic_series counter_lib (intro_params\<lparr>count := 1\<rparr>) 7 =
     Inr (\<lparr>index = [ts_2020_01_01], columns = [(''Value'', [Fin 0])]\<rparr>, 43) \<and>
   np_linspace (Fin 0) (trend_max (intro_params\<lparr>count := 1\<rparr>)) (count (intro_params\<lparr>count := 1\<rparr>)) =
     Inr [Fin 0] \<and>
   last [Fin 0] \<noteq> trend_max (intro_params\<lparr>count := 1\<rparr>)"
proof -
  have t: "np_linspace (Fin 0) (Fin 10) 1 = Inr [Fin 0]"
    using is_double_10 by (rule np_linspace_one)
  have g: "np_linspace (Fin 0) (fmul (Fin 3) np_pi) 1 = Inr [Fin 0]"
    unfolding fmul_3_pi using is_double_3_pi by (rule np_linspace_one)
  have run: "synthetic_series counter_lib (intro_params\<lparr>count := 1\<rparr>) 7 =
     Inr (\<lparr>index = [ts_2020_01_01], columns = [(''Value'', [Fin 0])]\<rparr>, 43)"
    using t g
    by (simp add: synthetic_series_def intro_params_def counter_lib_def np_random_seed_def
        pd_date_range_def ts_2020_01_01_def day_ns_def np_random_normal_def np_add_def
        pd_DataFrame_def)
  from t run show ?thesis by (simp add: intro_params_def)
qed

text \<open>
  Claim C7, as amended. For a seed in \<open>0 .. 2 ^ 32 - 1\<close>, a positive noise scale and a start
  date that is a timestamp, the cell fails exactly when the count is negative or the
  last of the days lies beyond \<open>pd.Timestamp.max\<close>. A count of \<open>0\<close> is not an error:
  \<open>pd.date_range\<close>, \<open>np.linspace\<close> and \<open>np.random.normal\<close> all accept it and return empty
  results, and the frame is empty. For the cell of the notebook at nanosecond resolution
  the counts that fail are those below \<open>0\<close> and those above \<open>88490\<close>
  (\<open>intro_cell_fails_iff_ns\<close>). (The limits of memory are outside the model.)
\<close>

theorem C7_synthetic_series_fails_iff:
  assumes "0 \<le> seed_value P" "seed_value P < 2 ^ 32"
    and "- Timestamp_max lib \<le> start_date P" "start_date P \<le> Timestamp_max lib"
    and "flt (Fin 0) (noise_scale P)"
  shows "(\<exists>e. synthetic_series lib P g = Inl e) \<longleftrightarrow>
     count P < 0 \<or> Timestamp_max lib < start_date P + (count P - 1) * day_ns"
proof -
  from assms(5) have "\<not> signbit (noise_scale P)" by (rule flt_pos_not_signbit)
  with assms(1-4) show ?thesis unfolding synthetic_series_fails_iff by auto
qed

theorem C7_synthetic_series_fails_iff_witness:
  "(\<exists>e. synthetic_series counter_lib (intro_params\<lparr>count := - 1\<rparr>) 7 = Inl e) \<and>
   (\<nexists>e. synthetic_series counter_lib (intro_params\<lparr>count := 0\<rparr>) 7 = Inl e) \<and>
   (\<nexists>e. synthetic_series counter_lib (intro_params\<lparr>count := 100\<rparr>) 7 = Inl e)"
proof -
  have v: "0 \<le> seed_value (intro_params\<lparr>count := c\<rparr>)"
    "seed_value (intro_params\<lparr>count := c\<rparr>) < 2 ^ 32"
    "- Timestamp_max counter_lib \<le> start_date (intro_params\<lparr>count := c\<rparr>)"
    "start_date (intro_params\<lparr>count := c\<rparr>) \<le> Timestamp_max counter_lib"
    "flt (Fin 0) (noise_scale (intro_params\<lparr>count := c\<rparr>))" for c
    by (simp_all add: intro_params_def counter_lib_def ts_2020_01_01_def)
  note c7 = C7_synthetic_series_fails_iff [OF v, of _ 7]
  show ?thesis
    unfolding c7 by (simp add: intro_params_def counter_lib_def ts_2020_01_01_def day_ns_def)
qed

text \<open>The cell of the notebook with its three \<open>100\<close>s replaced by \<open>0\<close> returns an empty frame.\<close>

theorem C7_counterexample:
  "count (intro_params\<lparr>count := 0\<rparr>) \<le> 0 \<and>
   synthetic_series counter_lib (intro_params\<lparr>count := 0\<rparr>) 7 =
     Inr (\<lparr>index = [], columns = [(''Value'', [])]\<rparr>, 42)"
  by (simp add: synthetic_series_def intro_params_def counter_lib_def np_random_seed_def
      pd_date_range_def ts_2020_01_01_def day_ns_def np_linspace_def np_random_normal_def
      np_add_def pd_DataFrame_def Let_def)

text \<open>
  The cell of the notebook, with its seed \<open>42\<close>, its scale \<open>1\<close> and its start 2020-01-01,
  for any count and at nanosecond resolution.
\<close>

lemma intro_cell_fails_iff_ns:
  assumes "Timestamp_max lib = 2 ^ 63 - 1"
  shows "(\<exists>e. synthetic_series lib (intro_params\<lparr>count := N\<rparr>) g = Inl e) \<longleftrightarrow>
     N < 0 \<or> 88490 < N"
proof -
  have e: "(N - 1) * 86400000000000 = N * 86400000000000 - 86400000000000"
    by (simp add: algebra_simps)
  have "(\<exists>e. synthetic_series lib (intro_params\<lparr>count := N\<rparr>) g = Inl e) \<longleftrightarrow>
     N < 0 \<or> 9223372036854775807 < 1577836800000000000 + (N - 1) * 86400000000000"
    unfolding synthetic_series_fails_iff
    by (simp add: intro_params_def assms ts_2020_01_01_def day_ns_def)
  moreover have "9223372036854775807 < 1577836800000000000 + (N - 1) * 86400000000000 \<longleftrightarrow>
      88490 < N"
    unfolding e by linarith
  ultimately show ?thesis by (simp only:)
qed

text \<open>
  Claim C3. Each generator cell starts with \<open>np.random.seed\<close>, so what it returns does not
  depend on the state \<open>g\<close> in which the global generator was left before: two runs with
  the same seed and parameters return the same frame and leave the same generator state,
  and so do two runs of either notebook as a whole.
\<close>

theorem C3_deterministic:
  "synthetic_series lib P g = synthetic_series lib P g' \<and>
   intro lib adfuller g = intro lib adfuller g' \<and>
   random_walk_frame lib n g = random_walk_frame lib n g' \<and>
   lesson3 lib adfuller n g = lesson3 lib adfuller n g'"
  by (simp add: synthetic_series_def intro_def random_walk_frame_def lesson3_def)

subsection \<open>The ADF cells\<close>

lemma lit_0_05_eval: "lit_0_05 = Fin (3602879701896397 / 2 ^ 56)"
  unfolding lit_0_05_def by (simp add: fl_eval [where k = 1017] rne_def Let_def)

lemma adf_report_texts:
  "filter is_text (adf_report a b yes no r) =
     [PrintText (if flt (pvalue r) lit_0_05 then yes else no)]"
  by (simp add: adf_report_def)

text \<open>
  On binary64 p-values the comparison with the literal is the comparison with the
  number \<open>0.05\<close>: no binary64 value lies between \<open>0.05\<close> and the literal's value.
\<close>

lemma flt_lit_0_05_iff:
  assumes "is_double p"
  shows "flt (Fin p) lit_0_05 \<longleftrightarrow> p < 5 / 100"
proof -
  have "p < 5 / 100" if lt: "p < 3602879701896397 / 2 ^ 56"
  proof (rule ccontr)
    assume "\<not> p < 5 / 100"
    then have ge: "5 / 100 \<le> p" by simp
    then have p0: "p \<noteq> 0" "0 < p" "\<bar>p\<bar> = p" by simp_all
    define m where "m = rne (\<bar>p\<bar> * 2 ^ 1074 / 2 ^ 1017)"
    define v :: real where "v = of_int m * 2 ^ 1017 / 2 ^ 1074"
    have "fl p = (let v = of_int (rne (\<bar>p\<bar> * 2 ^ 1074 / 2 ^ 1017)) * 2 ^ 1017 / 2 ^ 1074
       in if 2 ^ 1024 \<le> v then (if 0 < p then PInf else NInf)
          else Fin (if 0 < p then v else - v))"
      using ge lt p0 by (intro fl_eval) auto
    then have "fl p = (if 2 ^ 1024 \<le> v then (if 0 < p then PInf else NInf)
          else Fin (if 0 < p then v else - v))"
      unfolding Let_def m_def v_def .
    with p0(2) have "fl p = (if 2 ^ 1024 \<le> v then PInf else Fin v)"
      by (simp only: if_True)
    with assms have "Fin p = (if 2 ^ 1024 \<le> v then PInf else Fin v)"
      by (simp only: is_double_def)
    then have "p = v"
      by (cases "2 ^ 1024 \<le> v") (simp_all only: if_True if_False double.inject double.distinct)
    then have n: "p = of_int m * 2 ^ 1017 / 2 ^ 1074" by (simp only: v_def)
    have "(2::real) ^ 1074 = 2 ^ 1017 * 2 ^ 57" by (simp add: power_add [symmetric])
    with n have pn: "p = of_int m / 2 ^ 57" by simp
    from ge pn have "(5 / 100) * 2 ^ 57 \<le> (of_int m :: real)" by (simp add: field_simps)
    then have "(7205759403792793::real) < of_int m" by simp
    then have "7205759403792793 < m" by linarith
    then have a: "7205759403792794 \<le> m" by simp
    from lt pn have "(of_int m :: real) < (3602879701896397 / 2 ^ 56) * 2 ^ 57"
      by (simp add: field_simps)
    then have "(of_int m :: real) < 7205759403792794" by simp
    then have "m < 7205759403792794" by linarith
    with a show False by simp
  qed
  moreover have "p < 3602879701896397 / 2 ^ 56" if "p < 5 / 100"
    using that by simp
  ultimately show ?thesis by (auto simp: lit_0_05_eval)
qed


text \<open>
  Claim C2. In each of the three ADF cells, when the test returns a result for the
  sequence it is given, exactly one line of text is printed: the "stationary" line of
  that cell if \<open>result[1] < 0.05\<close>, and its "non-stationary" line otherwise. The
  threshold is the literal of the cell; no cell takes it as a parameter. By
  \<open>flt_lit_0_05_iff\<close> the comparison is with the number \<open>0.05\<close> itself.
\<close>

theorem C2_classification:
  "(getitem ts_df ''Value'' = Inr s1 \<and> adfuller (map snd s1) = Inr r1 \<longrightarrow>
      (\<exists>out. intro_adf_cell adfuller ts_df = Inr out \<and>
         filter is_text out =
           [PrintText (if flt (pvalue r1) lit_0_05
                       then ''The time series is likely stationary.''
                       else ''The time series is likely non-stationary.'')])) \<and>
   (getitem df ''Value'' = Inr s2 \<and> adfuller (map snd s2) = Inr r2 \<longrightarrow>
      (\<exists>out. lesson3_adf_cell adfuller df = Inr out \<and>
         filter is_text out =
           [PrintText (if flt (pvalue r2) lit_0_05
                       then ''The series is likely stationary.''
                       else ''The series is likely non-stationary.'')])) \<and>
   (getitem df ''Value_diff'' = Inr s3 \<and> adfuller (map snd (Series_dropna s3)) = Inr r3 \<longrightarrow>
      (\<exists>out. lesson3_adf_diff_cell adfuller df = Inr out \<and>
         filter is_text out =
           [PrintText (if flt (pvalue r3) lit_0_05
                       then ''The differenced series is likely stationary.''
                       else ''The differenced series is likely non-stationary.'')]))"
  by (simp add: intro_adf_cell_def lesson3_adf_cell_def lesson3_adf_diff_cell_def
      adf_report_texts)

subsection \<open>Frames\<close>

lemma index_setitem [simp]: "index (setitem df name s) = index df"
  by (simp add: setitem_def)

lemma getitem_setitem_other:
  "name' \<noteq> name \<Longrightarrow> getitem (setitem df name s) name' = getitem df name'"
  by (simp add: getitem_def setitem_def update_conv' split: option.splits)

lemma getitem_setitem_same:
  assumes "map fst s = index df"
  shows "getitem (setitem df name s) name = Inr s"
proof -
  have "zip (index df) (map snd s) = s"
    unfolding assms [symmetric] by (rule zip_map_fst_snd)
  with assms show ?thesis
    by (simp add: getitem_def setitem_def update_conv')
qed

lemma map_fst_Series_diff: "map fst (Series_diff s) = map fst s"
proof -
  have "length (values_diff vs) = length vs" for vs
    by (cases vs) (simp_all add: values_diff_def)
  then show ?thesis by (simp add: Series_diff_def)
qed

lemma map_snd_Series_diff: "map snd (Series_diff s) = values_diff (map snd s)"
proof -
  have "length (values_diff vs) = length vs" for vs
    by (cases vs) (simp_all add: values_diff_def)
  then show ?thesis by (simp add: Series_diff_def)
qed

lemma map_snd_Series_dropna: "map snd (Series_dropna s) = values_dropna (map snd s)"
  by (induction s) (auto simp: Series_dropna_def values_dropna_def)

lemma getitem_map_fst:
  assumes "getitem df name = Inr s" "length s = length (index df)"
  shows "map fst s = index df"
proof -
  from assms(1) obtain vs where s: "s = zip (index df) vs"
    by (auto simp: getitem_def split: option.splits)
  with assms(2) have "length (index df) \<le> length vs" by simp
  then show ?thesis by (simp add: s map_fst_zip_take)
qed


lemma lesson3_diff_cell_eq:
  "getitem df ''Value'' = Inr s \<Longrightarrow>
   lesson3_diff_cell df = Inr (setitem df ''Value_diff'' (Series_diff s))"
  by (simp add: lesson3_diff_cell_def)

lemma lesson3_diff_cell_frame:
  assumes "lesson3_diff_cell df = Inr df'"
  shows "index df' = index df" "getitem df' ''Value'' = getitem df ''Value''"
  using assms
  by (auto simp: lesson3_diff_cell_def getitem_setitem_other split: sum.splits)

text \<open>
  Claim C9. The differencing cell stores its result in the column \<open>'Value_diff'\<close> and
  leaves the index and the column \<open>'Value'\<close> as they were; and at the end of Lesson 3 the
  index and the \<open>(timestamp, value)\<close> pairs of \<open>'Value'\<close> are those of the frame the first
  cell built. The ADF cells take the frame and return what they print, nothing else.
\<close>

theorem C9_original_unchanged:
  "(getitem df ''Value'' = Inr s \<longrightarrow>
      (\<exists>df'. lesson3_diff_cell df = Inr df' \<and> index df' = index df \<and>
         getitem df' ''Value'' = Inr s)) \<and>
   (lesson3 lib adfuller n g = Inr (df_end, out, g_end) \<longrightarrow>
      (\<exists>df0 steps. random_walk_frame lib n g = Inr (df0, steps, g_end) \<and>
         index df_end = index df0 \<and> getitem df_end ''Value'' = getitem df0 ''Value''))"
proof (intro conjI impI)
  assume s: "getitem df ''Value'' = Inr s"
  then have "lesson3_diff_cell df = Inr (setitem df ''Value_diff'' (Series_diff s))"
    by (rule lesson3_diff_cell_eq)
  with s lesson3_diff_cell_frame [OF this]
  show "\<exists>df'. lesson3_diff_cell df = Inr df' \<and> index df' = index df \<and>
         getitem df' ''Value'' = Inr s"
    by simp
next
  assume run: "lesson3 lib adfuller n g = Inr (df_end, out, g_end)"
  then obtain df0 steps where
    rw: "random_walk_frame lib n g = Inr (df0, steps, g_end)"
    and d: "lesson3_diff_cell df0 = Inr df_end"
    by (auto simp: lesson3_def split: sum.splits prod.splits)
  from rw lesson3_diff_cell_frame [OF d]
  show "\<exists>df0 steps. random_walk_frame lib n g = Inr (df0, steps, g_end) \<and>
         index df_end = index df0 \<and> getitem df_end ''Value'' = getitem df0 ''Value''"
    by blast
qed

lemma length_np_cumsum [simp]: "length (np_cumsum xs) = length xs"
proof -
  have "length (cumsum_from a ys) = length ys" for a ys
    by (induction ys arbitrary: a) auto
  then show ?thesis by (cases xs) (simp_all add: np_cumsum_def)
qed

lemma random_walk_frame_fails_iff:
  "(\<exists>e. random_walk_frame lib n g = Inl e) \<longleftrightarrow>
     n < 0 \<or> ts_2020_01_01 < - Timestamp_max lib \<or> Timestamp_max lib < ts_2020_01_01 \<or>
     Timestamp_max lib < ts_2020_01_01 + (n - 1) * day_ns"
proof (cases "n < 0")
  case True
  then show ?thesis
    by (simp add: random_walk_frame_def np_random_seed_def np_random_normal_def)
next
  case False
  then obtain steps g' where
    "np_random_normal lib (Fin 0) (Fin 1) n (init_by_seed lib 42) = Inr (steps, g')"
    "length steps = nat n"
    using np_random_normal_ok [of "Fin 1" n lib "Fin 0" "init_by_seed lib 42"] by auto
  with False show ?thesis
    by (simp add: random_walk_frame_def np_random_seed_def pd_date_range_def pd_DataFrame_def)
qed

lemma random_walk_frame_ok:
  assumes "0 \<le> n"
    and "- Timestamp_max lib \<le> ts_2020_01_01" "ts_2020_01_01 \<le> Timestamp_max lib"
    and "ts_2020_01_01 + (n - 1) * day_ns \<le> Timestamp_max lib"
  shows "\<exists>steps g'.
     np_random_normal lib (Fin 0) (Fin 1) n (init_by_seed lib 42) = Inr (steps, g') \<and>
     length steps = nat n \<and>
     random_walk_frame lib n g =
       Inr (\<lparr>index = map (\<lambda>i. ts_2020_01_01 + int i * day_ns) [0..<nat n],
             columns = [(''Value'', np_cumsum steps)]\<rparr>, steps, g')"
proof -
  obtain steps g' where
    n: "np_random_normal lib (Fin 0) (Fin 1) n (init_by_seed lib 42) = Inr (steps, g')"
      "length steps = nat n"
    using np_random_normal_ok [of "Fin 1" n lib "Fin 0" "init_by_seed lib 42"] assms(1) by auto
  with assms show ?thesis
    by (simp add: random_walk_frame_def np_random_seed_def pd_date_range_ok pd_DataFrame_def)
qed

lemma random_walk_frame_sound:
  assumes "random_walk_frame lib n g = Inr (df, steps, g')"
  shows "0 \<le> n" "length steps = nat n" "length (index df) = nat n"
    "getitem df ''Value'' = Inr (zip (index df) (np_cumsum steps))"
proof -
  from assms have "\<not> (\<exists>e. random_walk_frame lib n g = Inl e)" by simp
  then have c: "0 \<le> n" "- Timestamp_max lib \<le> ts_2020_01_01"
    "ts_2020_01_01 \<le> Timestamp_max lib"
    "ts_2020_01_01 + (n - 1) * day_ns \<le> Timestamp_max lib"
    unfolding random_walk_frame_fails_iff by auto
  show "0 \<le> n" by (rule c(1))
  from random_walk_frame_ok [OF c, of g] assms
  show "length steps = nat n" "length (index df) = nat n"
    "getitem df ''Value'' = Inr (zip (index df) (np_cumsum steps))"
    by (auto simp: getitem_def)
qed

text \<open>With the stand-in library the random walk of a few days is built and is constant.\<close>

lemma random_walk_frame_counter:
  assumes "0 \<le> n" "n \<le> 100"
  shows "\<exists>df g'. random_walk_frame counter_lib n g = Inr (df, replicate (nat n) (Fin 0), g')"
proof -
  have r: "- Timestamp_max counter_lib \<le> ts_2020_01_01"
    "ts_2020_01_01 \<le> Timestamp_max counter_lib"
    "ts_2020_01_01 + (n - 1) * day_ns \<le> Timestamp_max counter_lib"
    using assms by (simp_all add: counter_lib_def ts_2020_01_01_def day_ns_def)
  have d: "fst (draws (legacy_gauss counter_lib) k g0) = replicate k (Fin 0)" for k g0
  proof (induction k arbitrary: g0)
    case 0
    then show ?case by simp
  next
    case (Suc k)
    from Suc [of "Suc g0"] show ?case
      by (cases "draws (legacy_gauss counter_lib) k (Suc g0)") (simp add: counter_lib_def)
  qed
  from random_walk_frame_ok [OF assms(1) r, of g] obtain df steps g' where
    n: "np_random_normal counter_lib (Fin 0) (Fin 1) n (init_by_seed counter_lib 42) =
        Inr (steps, g')"
    and rw: "random_walk_frame counter_lib n g = Inr (df, steps, g')"
    by blast
  from n assms(1) have "steps = map (\<lambda>z. fadd (Fin 0) (fmul (Fin 1) z))
      (fst (draws (legacy_gauss counter_lib) (nat n) (init_by_seed counter_lib 42)))"
    by (auto simp: np_random_normal_def split: prod.splits)
  then have "steps = replicate (nat n) (Fin 0)" by (simp add: d)
  with rw show ?thesis by blast
qed

text \<open>The series given to the second ADF test is the differencer applied to the random walk.\<close>

lemma lesson3_df_diff:
  assumes "random_walk_frame lib n g = Inr (df, steps, g')"
  shows "\<exists>df' s. lesson3_diff_cell df = Inr df' \<and> getitem df' ''Value_diff'' = Inr s \<and>
           map snd (Series_dropna s) = differencer (np_cumsum steps)"
proof -
  let ?s = "zip (index df) (np_cumsum steps)"
  note rw = random_walk_frame_sound [OF assms]
  have fst: "map fst ?s = index df" and snd: "map snd ?s = np_cumsum steps"
    using rw(2,3) by simp_all
  have cell: "lesson3_diff_cell df = Inr (setitem df ''Value_diff'' (Series_diff ?s))"
    using rw(4) by (rule lesson3_diff_cell_eq)
  have "map fst (Series_diff ?s) = index df"
    by (simp only: map_fst_Series_diff fst)
  then have get: "getitem (setitem df ''Value_diff'' (Series_diff ?s)) ''Value_diff'' =
      Inr (Series_diff ?s)"
    by (rule getitem_setitem_same)
  have "map snd (Series_dropna (Series_diff ?s)) = differencer (np_cumsum steps)"
    by (simp only: map_snd_Series_dropna map_snd_Series_diff snd differencer_def)
  with cell get show ?thesis by blast
qed

subsection \<open>Failure of the ADF cells\<close>

lemma adf_cell_fails_iff:
  assumes "getitem df ''Value'' = Inr s"
  shows "intro_adf_cell adfuller df = Inl e \<longleftrightarrow> adfuller (map snd s) = Inl e"
    and "lesson3_adf_cell adfuller df = Inl e \<longleftrightarrow> adfuller (map snd s) = Inl e"
  using assms
  by (auto simp: intro_adf_cell_def lesson3_adf_cell_def split: sum.splits)

lemma adf_diff_cell_fails_iff:
  assumes "getitem df ''Value_diff'' = Inr s"
  shows "lesson3_adf_diff_cell adfuller df = Inl e \<longleftrightarrow>
         adfuller (map snd (Series_dropna s)) = Inl e"
  using assms
  by (auto simp: lesson3_adf_diff_cell_def Let_def split: sum.splits)

lemma adfuller_spec_fails_iff:
  "adfuller_spec min_obs test x = Inl e \<longleftrightarrow> length x < min_obs \<and> e = InsufficientSample"
  by (auto simp: adfuller_spec_def)

text \<open>Once the first cell has built its frame, a run fails only in an ADF cell.\<close>

lemma intro_fails_iff:
  assumes "synthetic_series lib intro_params g = Inr (ts_df, g1)"
  shows "intro lib adfuller g = Inl e \<longleftrightarrow> intro_adf_cell adfuller ts_df = Inl e"
  using assms by (auto simp: intro_def split: sum.splits)

lemma lesson3_fails_iff:
  assumes "random_walk_frame lib n g = Inr (df0, steps, g2)"
  shows "lesson3 lib adfuller n g = Inl e \<longleftrightarrow>
     lesson3_adf_cell adfuller df0 = Inl e \<or>
     (\<exists>out1 df1. lesson3_adf_cell adfuller df0 = Inr out1 \<and> lesson3_diff_cell df0 = Inr df1 \<and>
        lesson3_adf_diff_cell adfuller df1 = Inl e)"
proof -
  from random_walk_frame_sound(4) [OF assms]
  have "lesson3_diff_cell df0 =
      Inr (setitem df0 ''Value_diff'' (Series_diff (zip (index df0) (np_cumsum steps))))"
    by (rule lesson3_diff_cell_eq)
  with assms show ?thesis
    by (auto simp: lesson3_def split: sum.splits)
qed

text \<open>
  Claim C8. In each of the three ADF cells the only call that can fail is the test: the
  cell fails with \<open>e\<close> exactly when the test raises \<open>e\<close> on the sequence it is given. With
  the hypothesis test as the specification describes it (\<open>adfuller_spec\<close>) that is exactly
  when the sequence has fewer than the minimal number of observations, and the error is
  the insufficient-sample error. No cell and no notebook catches it: once the first cell
  has built its frame, the introduction notebook ends with \<open>e\<close> exactly when its ADF cell
  fails with \<open>e\<close>, and Lesson 3 ends with \<open>e\<close> exactly when its first ADF cell fails with
  \<open>e\<close>, or that cell and the differencing cell succeed and the second ADF cell fails with
  \<open>e\<close>.
\<close>

theorem C8_checker_failure:
  "(getitem df ''Value'' = Inr s \<longrightarrow>
      (intro_adf_cell adfuller df = Inl e \<longleftrightarrow> adfuller (map snd s) = Inl e) \<and>
      (lesson3_adf_cell adfuller df = Inl e \<longleftrightarrow> adfuller (map snd s) = Inl e) \<and>
      (intro_adf_cell (adfuller_spec min_obs test) df = Inl e \<longleftrightarrow>
         length s < min_obs \<and> e = InsufficientSample) \<and>
      (lesson3_adf_cell (adfuller_spec min_obs test) df = Inl e \<longleftrightarrow>
         length s < min_obs \<and> e = InsufficientSample)) \<and>
   (getitem df ''Value_diff'' = Inr sd \<longrightarrow>
      (lesson3_adf_diff_cell adfuller df = Inl e \<longleftrightarrow>
         adfuller (map snd (Series_dropna sd)) = Inl e) \<and>
      (lesson3_adf_diff_cell (adfuller_spec min_obs test) df = Inl e \<longleftrightarrow>
         length (Series_dropna sd) < min_obs \<and> e = InsufficientSample)) \<and>
   (synthetic_series lib intro_params g = Inr (ts_df, g1) \<longrightarrow>
      (intro lib adfuller g = Inl e \<longleftrightarrow> intro_adf_cell adfuller ts_df = Inl e)) \<and>
   (random_walk_frame lib n g = Inr (df0, steps, g2) \<longrightarrow>
      (lesson3 lib adfuller n g = Inl e \<longleftrightarrow>
         lesson3_adf_cell adfuller df0 = Inl e \<or>
         (\<exists>out1 df1. lesson3_adf_cell adfuller df0 = Inr out1 \<and>
            lesson3_diff_cell df0 = Inr df1 \<and> lesson3_adf_diff_cell adfuller df1 = Inl e)))"
proof (intro conjI impI)
  assume s: "getitem df ''Value'' = Inr s"
  show "intro_adf_cell adfuller df = Inl e \<longleftrightarrow> adfuller (map snd s) = Inl e"
    by (rule adf_cell_fails_iff(1) [OF s])
  show "lesson3_adf_cell adfuller df = Inl e \<longleftrightarrow> adfuller (map snd s) = Inl e"
    by (rule adf_cell_fails_iff(2) [OF s])
  show "intro_adf_cell (adfuller_spec min_obs test) df = Inl e \<longleftrightarrow>
         length s < min_obs \<and> e = InsufficientSample"
    by (simp add: adf_cell_fails_iff(1) [OF s] adfuller_spec_fails_iff)
  show "lesson3_adf_cell (adfuller_spec min_obs test) df = Inl e \<longleftrightarrow>
         length s < min_obs \<and> e = InsufficientSample"
    by (simp add: adf_cell_fails_iff(2) [OF s] adfuller_spec_fails_iff)
next
  assume sd: "getitem df ''Value_diff'' = Inr sd"
  show "lesson3_adf_diff_cell adfuller df = Inl e \<longleftrightarrow>
         adfuller (map snd (Series_dropna sd)) = Inl e"
    by (rule adf_diff_cell_fails_iff [OF sd])
  show "lesson3_adf_diff_cell (adfuller_spec min_obs test) df = Inl e \<longleftrightarrow>
         length (Series_dropna sd) < min_obs \<and> e = InsufficientSample"
    by (simp add: adf_diff_cell_fails_iff [OF sd] adfuller_spec_fails_iff)
next
  assume "synthetic_series lib intro_params g = Inr (ts_df, g1)"
  then show "intro lib adfuller g = Inl e \<longleftrightarrow> intro_adf_cell adfuller ts_df = Inl e"
    by (rule intro_fails_iff)
next
  assume "random_walk_frame lib n g = Inr (df0, steps, g2)"
  then show "lesson3 lib adfuller n g = Inl e \<longleftrightarrow>
         lesson3_adf_cell adfuller df0 = Inl e \<or>
         (\<exists>out1 df1. lesson3_adf_cell adfuller df0 = Inr out1 \<and>
            lesson3_diff_cell df0 = Inr df1 \<and> lesson3_adf_diff_cell adfuller df1 = Inl e)"
    by (rule lesson3_fails_iff)
qed

subsection \<open>The cells on concrete inputs\<close>

lemma length_test_ok:
  "4 \<le> length x \<Longrightarrow> length_test x = Inr \<lparr>statistic = Fin 0, pvalue = Fin 0\<rparr>"
  by (simp add: length_test_def adfuller_spec_def)

lemma flt_0_lit: "flt (Fin 0) lit_0_05"
  by (simp add: lit_0_05_eval)

theorem C2_classification_witness:
  "(\<exists>out. intro_adf_cell length_test sample_frame = Inr out \<and>
      filter is_text out = [PrintText ''The time series is likely stationary.'']) \<and>
   (\<exists>out. lesson3_adf_cell length_test sample_frame = Inr out \<and>
      filter is_text out = [PrintText ''The series is likely stationary.'']) \<and>
   (\<exists>out. lesson3_adf_diff_cell length_test sample_frame = Inr out \<and>
      filter is_text out = [PrintText ''The differenced series is likely stationary.''])"
proof -
  let ?r = "\<lparr>statistic = Fin 0, pvalue = Fin 0\<rparr>"
  let ?s = "zip (index sample_frame) [Fin 1, Fin 2, Fin 4, Fin 7, Fin 11]"
  let ?d = "zip (index sample_frame) [NaN, Fin 1, Fin 2, Fin 3, Fin 4]"
  have g1: "getitem sample_frame ''Value'' = Inr ?s"
    by (simp add: getitem_def sample_frame_def)
  have g2: "getitem sample_frame ''Value_diff'' = Inr ?d"
    by (simp add: getitem_def sample_frame_def)
  have t1: "length_test (map snd ?s) = Inr ?r"
    by (rule length_test_ok) (simp add: sample_frame_def)
  have t2: "length_test (map snd (Series_dropna ?d)) = Inr ?r"
    by (rule length_test_ok) (simp add: sample_frame_def Series_dropna_def upt_rec)
  from C2_classification [of sample_frame ?s length_test ?r sample_frame ?s ?r ?d ?r]
    g1 g2 t1 t2 flt_0_lit
  show ?thesis by simp
qed

lemma differencer_zero_walk:
  "differencer (np_cumsum (replicate (Suc k) (Fin 0))) = replicate k (Fin 0)"
proof -
  have "cumsum_from (Fin 0) (replicate k (Fin 0)) = replicate k (Fin 0)" for k
    by (induction k) simp_all
  then have "np_cumsum (replicate (Suc k) (Fin 0)) = replicate (Suc k) (Fin 0)"
    by (simp add: np_cumsum_def)
  then show ?thesis
    by (simp add: differencer_Cons diff_from_constant)
qed

theorem C9_original_unchanged_witness:
  "(\<exists>df'. lesson3_diff_cell sample_frame = Inr df' \<and> index df' = index sample_frame \<and>
      getitem df' ''Value'' = getitem sample_frame ''Value'') \<and>
   (\<exists>df_end out g_end df0 steps.
      lesson3 counter_lib length_test 5 7 = Inr (df_end, out, g_end) \<and>
      random_walk_frame counter_lib 5 7 = Inr (df0, steps, g_end) \<and>
      index df_end = index df0 \<and> getitem df_end ''Value'' = getitem df0 ''Value'')"
proof -
  let ?s = "zip (index sample_frame) [Fin 1, Fin 2, Fin 4, Fin 7, Fin 11]"
  have g1: "getitem sample_frame ''Value'' = Inr ?s"
    by (simp add: getitem_def sample_frame_def)
  obtain df0 g1 where
    rw: "random_walk_frame counter_lib 5 7 = Inr (df0, replicate (nat 5) (Fin 0), g1)"
    using random_walk_frame_counter [of 5 7] by auto
  note snd = random_walk_frame_sound [OF rw]
  from lesson3_df_diff [OF rw] obtain df' s where
    d: "lesson3_diff_cell df0 = Inr df'" and gd: "getitem df' ''Value_diff'' = Inr s"
    and ms: "map snd (Series_dropna s) = differencer (np_cumsum (replicate (nat 5) (Fin 0)))"
    by blast
  have "differencer (np_cumsum (replicate (nat 5) (Fin 0))) = replicate 4 (Fin 0)"
    using differencer_zero_walk [of 4] by (simp add: eval_nat_numeral)
  with ms have t2: "length_test (map snd (Series_dropna s)) = Inr \<lparr>statistic = Fin 0, pvalue = Fin 0\<rparr>"
    by (simp add: length_test_ok)
  have t1: "length_test (map snd (zip (index df0) (np_cumsum (replicate (nat 5) (Fin 0))))) =
      Inr \<lparr>statistic = Fin 0, pvalue = Fin 0\<rparr>"
    using snd(2,3) by (simp add: length_test_ok)
  have "\<exists>out. lesson3 counter_lib length_test 5 7 = Inr (df', out, g1)"
    using rw snd(4) d gd t1 t2
    by (simp add: lesson3_def lesson3_adf_cell_def lesson3_adf_diff_cell_def)
  then obtain out where run: "lesson3 counter_lib length_test 5 7 = Inr (df', out, g1)" ..
  from C9_original_unchanged [of sample_frame ?s counter_lib length_test 5 7 df' out g1] g1 run rw
  show ?thesis by auto
qed

text \<open>
  Runs that end with the error of the test: in each of the three cells on the five-day
  frame, in the introduction notebook (100 observations, 101 asked for), and in Lesson 3
  at its first test (3 observations, 4 asked for) and at its second test (5 observations
  and 4 differences, 5 asked for).
\<close>

theorem C8_checker_failure_witness:
  "intro_adf_cell (adfuller_spec 6 (\<lambda>x. \<lparr>statistic = Fin 0, pvalue = Fin 0\<rparr>)) sample_frame =
     Inl InsufficientSample \<and>
   lesson3_adf_cell (adfuller_spec 6 (\<lambda>x. \<lparr>statistic = Fin 0, pvalue = Fin 0\<rparr>)) sample_frame =
     Inl InsufficientSample \<and>
   lesson3_adf_diff_cell (adfuller_spec 6 (\<lambda>x. \<lparr>statistic = Fin 0, pvalue = Fin 0\<rparr>)) sample_frame =
     Inl InsufficientSample \<and>
   intro counter_lib (adfuller_spec 101 (\<lambda>x. \<lparr>statistic = Fin 0, pvalue = Fin 0\<rparr>)) 7 =
     Inl InsufficientSample \<and>
   lesson3 counter_lib (adfuller_spec 4 (\<lambda>x. \<lparr>statistic = Fin 0, pvalue = Fin 0\<rparr>)) 3 7 =
     Inl InsufficientSample \<and>
   lesson3 counter_lib (adfuller_spec 5 (\<lambda>x. \<lparr>statistic = Fin 0, pvalue = Fin 0\<rparr>)) 5 7 =
     Inl InsufficientSample"
proof -
  let ?t = "\<lambda>x :: double list. \<lparr>statistic = Fin 0, pvalue = Fin 0\<rparr>"
  let ?E = InsufficientSample
  \<comment> \<open>the three cells on the five-day frame\<close>
  let ?s = "zip (index sample_frame) [Fin 1, Fin 2, Fin 4, Fin 7, Fin 11]"
  let ?d = "zip (index sample_frame) [NaN, Fin 1, Fin 2, Fin 3, Fin 4]"
  have gs: "getitem sample_frame ''Value'' = Inr ?s"
    by (simp add: getitem_def sample_frame_def)
  have gd: "getitem sample_frame ''Value_diff'' = Inr ?d"
    by (simp add: getitem_def sample_frame_def)
  have ls: "length ?s < 6" by (simp add: sample_frame_def)
  have ld: "length (Series_dropna ?d) < 6" by (simp add: sample_frame_def Series_dropna_def upt_rec)
  note a = C8_checker_failure [where df = sample_frame and s = "?s" and sd = "?d"
      and min_obs = 6 and test = "?t" and e = ?E, THEN conjunct1, rule_format, OF gs]
    C8_checker_failure [where df = sample_frame and s = "?s" and sd = "?d"
      and min_obs = 6 and test = "?t" and e = ?E,
      THEN conjunct2, THEN conjunct1, rule_format, OF gd]
  from a ls ld have cells:
    "intro_adf_cell (adfuller_spec 6 ?t) sample_frame = Inl ?E"
    "lesson3_adf_cell (adfuller_spec 6 ?t) sample_frame = Inl ?E"
    "lesson3_adf_diff_cell (adfuller_spec 6 ?t) sample_frame = Inl ?E"
    by blast+
  \<comment> \<open>the introduction notebook\<close>
  have c0: "0 \<le> count intro_params" by (simp add: intro_params_def)
  have sc: "\<not> signbit (noise_scale intro_params)" by (simp add: intro_params_def)
  from synthetic_series_ok [OF intro_params_valid(1-4) c0 intro_params_valid(5) sc, of 7]
  obtain data g1 where
    gen: "synthetic_series counter_lib intro_params 7 =
        Inr (\<lparr>index = map (\<lambda>i. start_date intro_params + int i * day_ns)
                 [0..<nat (count intro_params)],
              columns = [(''Value'', data)]\<rparr>, g1)"
    and ldata: "length data = nat (count intro_params)"
    by blast
  let ?df = "\<lparr>index = map (\<lambda>i. start_date intro_params + int i * day_ns)
                 [0..<nat (count intro_params)], columns = [(''Value'', data)]\<rparr>"
  have gi: "getitem ?df ''Value'' = Inr (zip (index ?df) data)"
    by (simp add: getitem_def)
  have li: "length (zip (index ?df) data) < 101"
    using ldata by (simp add: intro_params_def)
  note b = C8_checker_failure [where df = "?df" and s = "zip (index ?df) data" and min_obs = 101
      and test = "?t" and e = ?E and lib = counter_lib and g = 7 and ts_df = "?df" and ?g1.0 = g1
      and adfuller = "adfuller_spec 101 ?t"]
  from b gi li have "intro_adf_cell (adfuller_spec 101 ?t) ?df = Inl ?E" by blast
  with b gen have intro: "intro counter_lib (adfuller_spec 101 ?t) 7 = Inl ?E" by blast
  \<comment> \<open>Lesson 3, failing at the first test\<close>
  obtain df3 g3 where
    rw3: "random_walk_frame counter_lib 3 7 = Inr (df3, replicate (nat 3) (Fin 0), g3)"
    using random_walk_frame_counter [of 3 7] by auto
  note s3 = random_walk_frame_sound [OF rw3]
  have l3: "length (zip (index df3) (np_cumsum (replicate (nat 3) (Fin 0)))) < 4"
    using s3(2,3) by simp
  note c = C8_checker_failure [where df = df3
      and s = "zip (index df3) (np_cumsum (replicate (nat 3) (Fin 0)))" and min_obs = 4
      and test = "?t" and e = ?E and lib = counter_lib and g = 7 and n = 3 and ?df0.0 = df3
      and steps = "replicate (nat 3) (Fin 0)" and ?g2.0 = g3 and adfuller = "adfuller_spec 4 ?t"]
  from c s3(4) l3 have "lesson3_adf_cell (adfuller_spec 4 ?t) df3 = Inl ?E" by blast
  with c rw3 have first: "lesson3 counter_lib (adfuller_spec 4 ?t) 3 7 = Inl ?E" by blast
  \<comment> \<open>Lesson 3, failing at the second test\<close>
  obtain df5 g5 where
    rw5: "random_walk_frame counter_lib 5 7 = Inr (df5, replicate (nat 5) (Fin 0), g5)"
    using random_walk_frame_counter [of 5 7] by auto
  note s5 = random_walk_frame_sound [OF rw5]
  from lesson3_df_diff [OF rw5] obtain df5' sd5 where
    d5: "lesson3_diff_cell df5 = Inr df5'" and gd5: "getitem df5' ''Value_diff'' = Inr sd5"
    and ms5: "map snd (Series_dropna sd5) = differencer (np_cumsum (replicate (nat 5) (Fin 0)))"
    by blast
  have "differencer (np_cumsum (replicate (nat 5) (Fin 0))) = replicate 4 (Fin 0)"
    using differencer_zero_walk [of 4] by (simp add: eval_nat_numeral)
  with ms5 have "length (map snd (Series_dropna sd5)) = 4" by simp
  then have l5': "length (Series_dropna sd5) < 5" by simp
  have l5: "\<not> length (zip (index df5) (np_cumsum (replicate (nat 5) (Fin 0)))) < 5"
    using s5(2,3) by simp
  note d1 = C8_checker_failure [where df = df5
      and s = "zip (index df5) (np_cumsum (replicate (nat 5) (Fin 0)))" and min_obs = 5
      and test = "?t" and lib = counter_lib and g = 7 and n = 5 and ?df0.0 = df5
      and steps = "replicate (nat 5) (Fin 0)" and ?g2.0 = g5 and adfuller = "adfuller_spec 5 ?t"]
  note d2 = C8_checker_failure [where df = df5' and sd = sd5 and min_obs = 5
      and test = "?t" and e = ?E, THEN conjunct2, THEN conjunct1, rule_format, OF gd5]
  from d1 s5(4) l5 have "\<And>e. lesson3_adf_cell (adfuller_spec 5 ?t) df5 \<noteq> Inl e" by blast
  then obtain out1 where o1: "lesson3_adf_cell (adfuller_spec 5 ?t) df5 = Inr out1"
    by (cases "lesson3_adf_cell (adfuller_spec 5 ?t) df5") auto
  from d2 l5' have "lesson3_adf_diff_cell (adfuller_spec 5 ?t) df5' = Inl ?E" by blast
  with d1 [where e = ?E] rw5 o1 d5
  have second: "lesson3 counter_lib (adfuller_spec 5 ?t) 5 7 = Inl ?E" by blast
  from cells intro first second show ?thesis by blast
qed


end
